theory Spec2Isabelle
  imports Main
begin

section \<open>JavaScript values, completions and awaitables\<close>

text \<open>
  The library (\<^verbatim>\<open>src/index.ts\<close>) only inspects a handful of features of the values that
  flow through it: their truthiness (\<^verbatim>\<open>if (error)\<close>, \<^verbatim>\<open>!error\<close>), their \<^verbatim>\<open>typeof\<close>,
  whether they are instances of the built-in \<^verbatim>\<open>Promise\<close>, and whether their \<^verbatim>\<open>then\<close> and
  \<^verbatim>\<open>catch\<close> members are callable. The value type below keeps exactly these features.

  A settlement is the final state of an awaitable: fulfilled with a value, rejected with a
  reason, or never settled. A completion is the result of running a piece of synchronous
  code: it returns normally or it throws.

  A number carried as data (a thrown or returned value) is only tested for truthiness; it
  is an integer here, with \<open>NaN\<close> kept apart because it is falsy. The numbers the retry
  driver computes with have a model of their own, below.
\<close>

datatype ('a, 'e) settlement = Fulfilled 'a | Rejected 'e | Pending

datatype ('a, 'e) completion = Normal 'a | Throw 'e

text \<open>
  Where an awaitable comes from: the built-in \<^verbatim>\<open>Promise\<close>, or an object of another
  runtime or a polyfill, which is described by whether its \<^verbatim>\<open>then\<close> member and its
  \<^verbatim>\<open>catch\<close> member are callable. A foreign object with both members is taken to follow
  the usual contract of \<^verbatim>\<open>then\<close> and \<^verbatim>\<open>catch\<close>.
\<close>

datatype origin = Native | Foreign bool bool

datatype jsval =
    Undefined
  | Null
  | Bool bool
  | Num int
  | NaN
  | Str string
  | Obj "(string \<times> jsval) list"
  | ErrorObj string
  | AggregateError "jsval list" string
  | Thenable origin "(jsval, jsval) settlement"

type_synonym 'a comp = "('a, jsval) completion"
type_synonym 'a promise = "('a, jsval) settlement"

text \<open>The two-element array \<^verbatim>\<open>[data, error]\<close>.\<close>

type_synonym outcome = "jsval \<times> jsval"

text \<open>JavaScript's \<^verbatim>\<open>ToBoolean\<close>.\<close>

fun truthy :: "jsval \<Rightarrow> bool" where
  "truthy Undefined = False"
| "truthy Null = False"
| "truthy (Bool b) = b"
| "truthy (Num n) = (n \<noteq> 0)"
| "truthy NaN = False"
| "truthy (Str s) = (s \<noteq> [])"
| "truthy (Obj fs) = True"
| "truthy (ErrorObj m) = True"
| "truthy (AggregateError es m) = True"
| "truthy (Thenable orig st) = True"

fun jstypeof :: "jsval \<Rightarrow> string" where
  "jstypeof Undefined = ''undefined''"
| "jstypeof Null = ''object''"
| "jstypeof (Bool b) = ''boolean''"
| "jstypeof (Num n) = ''number''"
| "jstypeof NaN = ''number''"
| "jstypeof (Str s) = ''string''"
| "jstypeof (Obj fs) = ''object''"
| "jstypeof (ErrorObj m) = ''object''"
| "jstypeof (AggregateError es m) = ''object''"
| "jstypeof (Thenable orig st) = ''object''"

text \<open>\<^verbatim>\<open>result instanceof Promise\<close>.\<close>

fun instanceof_Promise :: "jsval \<Rightarrow> bool" where
  "instanceof_Promise (Thenable Native st) = True"
| "instanceof_Promise v = False"

text \<open>\<^verbatim>\<open>result != null\<close>: the loose comparison is false for null and undefined only.\<close>

fun not_nullish :: "jsval \<Rightarrow> bool" where
  "not_nullish Undefined = False"
| "not_nullish Null = False"
| "not_nullish v = True"

text \<open>\<^verbatim>\<open>typeof result.then === "function"\<close> and \<^verbatim>\<open>typeof result.catch === "function"\<close>.\<close>

fun then_callable :: "jsval \<Rightarrow> bool" where
  "then_callable (Thenable Native st) = True"
| "then_callable (Thenable (Foreign t c) st) = t"
| "then_callable v = False"

fun catch_callable :: "jsval \<Rightarrow> bool" where
  "catch_callable (Thenable Native st) = True"
| "catch_callable (Thenable (Foreign t c) st) = c"
| "catch_callable v = False"

text \<open>The settlement an awaitable object carries.\<close>

fun settlement_of :: "jsval \<Rightarrow> jsval promise" where
  "settlement_of (Thenable orig st) = st"
| "settlement_of v = Fulfilled v"

text \<open>
  \<^verbatim>\<open>p.then(f)\<close> and \<^verbatim>\<open>p.catch(h)\<close>: the callback runs on the matching settlement; a
  callback that throws rejects the derived awaitable.
\<close>

fun promise_then :: "'a promise \<Rightarrow> ('a \<Rightarrow> 'b comp) \<Rightarrow> 'b promise" where
  "promise_then (Fulfilled v) f = (case f v of Normal y \<Rightarrow> Fulfilled y | Throw e \<Rightarrow> Rejected e)"
| "promise_then (Rejected e) f = Rejected e"
| "promise_then Pending f = Pending"

fun promise_catch :: "'a promise \<Rightarrow> (jsval \<Rightarrow> 'a comp) \<Rightarrow> 'a promise" where
  "promise_catch (Fulfilled v) h = Fulfilled v"
| "promise_catch (Rejected e) h = (case h e of Normal y \<Rightarrow> Fulfilled y | Throw e' \<Rightarrow> Rejected e')"
| "promise_catch Pending h = Pending"

text \<open>\<^verbatim>\<open>try { body } catch (e) { handler(e) }\<close>.\<close>

definition try_catch :: "'a comp \<Rightarrow> (jsval \<Rightarrow> 'a comp) \<Rightarrow> 'a comp" where
  "try_catch body handler = (case body of Normal v \<Rightarrow> Normal v | Throw e \<Rightarrow> handler e)"

section \<open>The error transformer contract\<close>

text \<open>
  \<^verbatim>\<open>
  const transformError = (error, transformer?) => {
    try {
      return transformer ? transformer(error) : error;
    } catch (transformError) {
      return new AggregateError([error, transformError],
        "Error transforming error. Both errors are in the 'errors' property.");
    }
  };
  \<close>
\<close>

type_synonym transformer = "jsval \<Rightarrow> jsval comp"

definition aggregate_message :: string where
  "aggregate_message = ''Error transforming error. Both errors are in the 'errors' property.''"

definition transformError :: "jsval \<Rightarrow> transformer option \<Rightarrow> jsval comp" where
  "transformError error t =
     try_catch
       (case t of Some f \<Rightarrow> f error | None \<Rightarrow> Normal error)
       (\<lambda>transformError. Normal (AggregateError [error, transformError] aggregate_message))"

section \<open>neatCatch and createNeatWrapper\<close>

text \<open>
  What \<^verbatim>\<open>neatCatch\<close> hands back: the outcome itself, or an awaitable of the outcome.
\<close>

datatype nc_result = Sync outcome | Async "outcome promise"

text \<open>
  A zero-argument operation is a thunk; running it returns a value or throws.
  \<^verbatim>\<open>const handleError = (error) => [null, transformError(error, errorTransformer)];\<close>
\<close>

type_synonym operation = "unit \<Rightarrow> jsval comp"

definition handleError :: "transformer option \<Rightarrow> jsval \<Rightarrow> outcome comp" where
  "handleError errorTransformer error =
     (case transformError error errorTransformer of
        Normal te \<Rightarrow> Normal (Null, te)
      | Throw e \<Rightarrow> Throw e)"

text \<open>The test that selects the asynchronous branch of \<^verbatim>\<open>neatCatch\<close>.\<close>

definition is_awaitable :: "jsval \<Rightarrow> bool" where
  "is_awaitable result \<longleftrightarrow>
     instanceof_Promise result \<or>
     (not_nullish result \<and>
      (jstypeof result = ''object'' \<or> jstypeof result = ''function'') \<and>
      then_callable result \<and>
      catch_callable result)"

definition neatCatch :: "operation \<Rightarrow> transformer option \<Rightarrow> nc_result comp" where
  "neatCatch fn errorTransformer =
     try_catch
       (case fn () of
          Throw e \<Rightarrow> Throw e
        | Normal result \<Rightarrow>
            if is_awaitable result
            then Normal (Async (promise_catch
                                  (promise_then (settlement_of result) (\<lambda>data. Normal (data, Null)))
                                  (handleError errorTransformer)))
            else Normal (Sync (result, Null)))
       (\<lambda>error. case handleError errorTransformer error of
                   Normal out \<Rightarrow> Normal (Sync out)
                 | Throw e \<Rightarrow> Throw e)"

text \<open>
  \<^verbatim>\<open>createNeatWrapper(fn, t) = (...args) => neatCatch(() => fn(...args), t)\<close>
\<close>

definition createNeatWrapper ::
  "('args \<Rightarrow> jsval comp) \<Rightarrow> transformer option \<Rightarrow> 'args \<Rightarrow> nc_result comp" where
  "createNeatWrapper fn errorTransformer = (\<lambda>args. neatCatch (\<lambda>_. fn args) errorTransformer)"

section \<open>neatCatchAll\<close>

text \<open>
  One entry of what \<^verbatim>\<open>Promise.allSettled\<close> resolves to:
  \<^verbatim>\<open>{status: "fulfilled", value}\<close> or \<^verbatim>\<open>{status: "rejected", reason}\<close>.
\<close>

datatype settled = SettledFulfilled outcome | SettledRejected jsval

text \<open>
  \<^verbatim>\<open>operations.map((op) => neatCatch(op, errorTransformer))\<close>: the callback runs on each
  element in order, and a throw of the callback leaves the map.
\<close>

fun map_comp :: "('a \<Rightarrow> 'b comp) \<Rightarrow> 'a list \<Rightarrow> 'b list comp" where
  "map_comp f [] = Normal []"
| "map_comp f (x # xs) =
     (case f x of
        Throw e \<Rightarrow> Throw e
      | Normal y \<Rightarrow> (case map_comp f xs of Throw e \<Rightarrow> Throw e | Normal ys \<Rightarrow> Normal (y # ys)))"

text \<open>
  \<^verbatim>\<open>Promise.allSettled\<close> never rejects; it resolves, in input order, once every input
  has settled, and stays pending while one input is pending. An input that is not an
  awaitable (the array a synchronous \<^verbatim>\<open>neatCatch\<close> returns) counts as fulfilled.
\<close>

fun settled_of :: "nc_result \<Rightarrow> settled option" where
  "settled_of (Sync out) = Some (SettledFulfilled out)"
| "settled_of (Async (Fulfilled out)) = Some (SettledFulfilled out)"
| "settled_of (Async (Rejected e)) = Some (SettledRejected e)"
| "settled_of (Async Pending) = None"

fun allSettled :: "nc_result list \<Rightarrow> settled list promise" where
  "allSettled [] = Fulfilled []"
| "allSettled (r # rs) =
     (case settled_of r of
        None \<Rightarrow> Pending
      | Some s \<Rightarrow>
          (case allSettled rs of
             Fulfilled ss \<Rightarrow> Fulfilled (s # ss)
           | Rejected e \<Rightarrow> Rejected e
           | Pending \<Rightarrow> Pending))"

text \<open>
  \<^verbatim>\<open>await p\<close> inside an async function: the value, a throw of the rejection reason, or
  no continuation at all.
\<close>

datatype 'a awaited = Got 'a | Raised jsval | Never

fun await :: "'a promise \<Rightarrow> 'a awaited" where
  "await (Fulfilled v) = Got v"
| "await (Rejected e) = Raised e"
| "await Pending = Never"

text \<open>
  A JavaScript array with holes: a slot is \<open>None\<close> (a hole) or holds a value.
  \<^verbatim>\<open>xs[i] = v\<close> beyond the end extends the array with holes up to \<open>i\<close>.
\<close>

type_synonym sparse = "jsval option list"

definition arr_set :: "sparse \<Rightarrow> nat \<Rightarrow> jsval \<Rightarrow> sparse" where
  "arr_set xs i v =
     (if i < length xs then xs[i := Some v]
      else xs @ replicate (i - length xs) None @ [Some v])"

text \<open>Reading \<^verbatim>\<open>xs[i]\<close>: a hole and an index beyond the end both give nothing.\<close>

definition slot :: "sparse \<Rightarrow> nat \<Rightarrow> jsval option" where
  "slot xs i = (if i < length xs then xs ! i else None)"

text \<open>
  \<^verbatim>\<open>
  settled.forEach((result, index) => {
    if (result.status === "fulfilled") {
      const [data, error] = result.value;
      if (error) { errors[index] = error; } else { results[index] = data; }
    } else {
      errors[index] = transformError(result.reason, errorTransformer);
    }
  });
  \<close>
  The two arrays are threaded through the loop.
\<close>

fun forEach_settled ::
  "settled list \<Rightarrow> nat \<Rightarrow> transformer option \<Rightarrow> sparse \<times> sparse \<Rightarrow> (sparse \<times> sparse) comp" where
  "forEach_settled [] index errorTransformer acc = Normal acc"
| "forEach_settled (result # rest) index errorTransformer (results, errors) =
     (case result of
        SettledFulfilled (data, error) \<Rightarrow>
          if truthy error
          then forEach_settled rest (Suc index) errorTransformer (results, arr_set errors index error)
          else forEach_settled rest (Suc index) errorTransformer (arr_set results index data, errors)
      | SettledRejected reason \<Rightarrow>
          (case transformError reason errorTransformer of
             Throw e \<Rightarrow> Throw e
           | Normal te \<Rightarrow>
               forEach_settled rest (Suc index) errorTransformer (results, arr_set errors index te)))"

text \<open>The returned object; \<open>None\<close> is \<^verbatim>\<open>null\<close>.\<close>

record batch =
  results :: "sparse option"
  errors :: "sparse option"

text \<open>
  \<^verbatim>\<open>
  return {
    results: results.length ? results : null,
    errors: errors.length ? errors : null,
  };
  \<close>
  An async function: a throw anywhere in the body rejects the returned awaitable.
\<close>

definition neatCatchAll :: "operation list \<Rightarrow> transformer option \<Rightarrow> batch promise" where
  "neatCatchAll operations errorTransformer =
     (case map_comp (\<lambda>op. neatCatch op errorTransformer) operations of
        Throw e \<Rightarrow> Rejected e
      | Normal rs \<Rightarrow>
          (case await (allSettled rs) of
             Never \<Rightarrow> Pending
           | Raised e \<Rightarrow> Rejected e
           | Got settled \<Rightarrow>
               (case forEach_settled settled 0 errorTransformer ([], []) of
                  Throw e \<Rightarrow> Rejected e
                | Normal (results_arr, errors_arr) \<Rightarrow>
                    Fulfilled
                      \<lparr> results = (if length results_arr \<noteq> 0 then Some results_arr else None),
                        errors = (if length errors_arr \<noteq> 0 then Some errors_arr else None) \<rparr>)))"

text \<open>Reading index \<open>i\<close> of a top-level sequence that may be \<^verbatim>\<open>null\<close>.\<close>

definition batch_slot :: "sparse option \<Rightarrow> nat \<Rightarrow> jsval option" where
  "batch_slot arr i = (case arr of None \<Rightarrow> None | Some xs \<Rightarrow> slot xs i)"

section \<open>neatCatchRetry\<close>

datatype backoff_kind = Linear | Exponential

text \<open>
  \<^verbatim>\<open>NeatCatchRetryOptions\<close>: every field is optional. The transformer and the predicate
  are caller code, so each may throw.
\<close>

text \<open>
  The delay is a JavaScript number, an IEEE double, and the driver multiplies it. The
  model follows a double only while it is a safe integer (an integer of magnitude at most
  \<open>2^53 - 1\<close>, \<^verbatim>\<open>Number.isSafeInteger\<close>), where double arithmetic is exact: the product of
  two safe integers, when itself a safe integer, is that very double. Every other double
  (a fraction, a larger magnitude, \<^verbatim>\<open>Infinity\<close>, \<^verbatim>\<open>NaN\<close>) and every result the model cannot
  vouch for is \<open>Untracked\<close>: the model says nothing of its value.
\<close>

datatype jsnum = SafeInt int | Untracked

definition MAX_SAFE_INTEGER :: int where
  "MAX_SAFE_INTEGER = 2 ^ 53 - 1"

definition safe_integer :: "int \<Rightarrow> bool" where
  "safe_integer x \<longleftrightarrow> - MAX_SAFE_INTEGER \<le> x \<and> x \<le> MAX_SAFE_INTEGER"

definition num_of_int :: "int \<Rightarrow> jsnum" where
  "num_of_int x = (if safe_integer x then SafeInt x else Untracked)"

text \<open>\<^verbatim>\<open>a * b\<close> on doubles.\<close>

fun num_mul :: "jsnum \<Rightarrow> jsnum \<Rightarrow> jsnum" where
  "num_mul (SafeInt a) (SafeInt b) =
     (if safe_integer a \<and> safe_integer b then num_of_int (a * b) else Untracked)"
| "num_mul a b = Untracked"

text \<open>
  \<^verbatim>\<open>Math.pow(2, k)\<close> for an integer \<open>k\<close>: a power of two, followed while it is a safe
  integer; a negative \<open>k\<close> gives a fraction.
\<close>

definition math_pow2 :: "int \<Rightarrow> jsnum" where
  "math_pow2 k = (if 0 \<le> k then num_of_int (2 ^ nat k) else Untracked)"

record retry_options =
  maxRetries :: "int option"
  delay :: "jsnum option"
  backoff :: "backoff_kind option"
  errorTransformer :: "(jsval \<Rightarrow> int \<Rightarrow> jsval comp) option"
  shouldRetry :: "(jsval \<Rightarrow> int \<Rightarrow> bool comp) option"

text \<open>
  What the driver does to the outside: how often the operation has been invoked, and the
  durations handed to \<^verbatim>\<open>setTimeout\<close>, oldest first. What the platform's timer does with
  a duration is not part of the library.
\<close>

record retry_trace =
  calls :: nat
  waits :: "jsnum list"

text \<open>
  The operation may behave differently at each invocation: \<open>fn k\<close> is what its \<open>k\<close>-th
  invocation (counting from 1) does.

  \<^verbatim>\<open>
  const nextDelay = backoff === "exponential"
      ? delay * Math.pow(2, attempt - 1) : delay * attempt;
  \<close>
\<close>

definition nextDelay :: "backoff_kind \<Rightarrow> jsnum \<Rightarrow> int \<Rightarrow> jsnum" where
  "nextDelay bk dl attempt =
     (if bk = Exponential then num_mul dl (math_pow2 (attempt - 1))
      else num_mul dl (num_of_int attempt))"

text \<open>
  The body of \<^verbatim>\<open>for (let attempt = 1; attempt <= maxRetries + 1; attempt++)\<close>, with the
  options already destructured.
\<close>

function retry_loop ::
  "(nat \<Rightarrow> jsval comp) \<Rightarrow> int \<Rightarrow> jsnum \<Rightarrow> backoff_kind \<Rightarrow> (jsval \<Rightarrow> int \<Rightarrow> jsval comp) option \<Rightarrow>
   (jsval \<Rightarrow> int \<Rightarrow> bool comp) \<Rightarrow> int \<Rightarrow> retry_trace \<Rightarrow> outcome promise \<times> retry_trace" where
  "retry_loop fn maxR dl bk errT shouldR attempt tr =
     (if attempt \<le> maxR + 1 then
        (let tr1 = tr\<lparr>calls := Suc (calls tr)\<rparr> in
         case neatCatch (\<lambda>_. fn (calls tr1)) None of
           Throw e \<Rightarrow> (Rejected e, tr1)
         | Normal r \<Rightarrow>
             (case (case r of Sync out \<Rightarrow> Got out | Async p \<Rightarrow> await p) of
                Never \<Rightarrow> (Pending, tr1)
              | Raised e \<Rightarrow> (Rejected e, tr1)
              | Got (data, error) \<Rightarrow>
                  if \<not> truthy error then (Fulfilled (data, Null), tr1)
                  else
                    (let isLastAttempt = (attempt = maxR + 1) in
                     case (if \<not> isLastAttempt then shouldR error attempt else Normal False) of
                       Throw e \<Rightarrow> (Rejected e, tr1)
                     | Normal shouldContinue \<Rightarrow>
                         if \<not> shouldContinue then
                           (case errT of
                              Some et \<Rightarrow>
                                (case transformError error (Some (\<lambda>e. et e attempt)) of
                                   Throw e \<Rightarrow> (Rejected e, tr1)
                                 | Normal transformedError \<Rightarrow> (Fulfilled (Null, transformedError), tr1))
                            | None \<Rightarrow> (Fulfilled (Null, error), tr1))
                         else
                           retry_loop fn maxR dl bk errT shouldR (attempt + 1)
                             (tr1\<lparr>waits := waits tr1 @ [nextDelay bk dl attempt]\<rparr>))))
      else (Fulfilled (Null, ErrorObj ''Unexpected retry loop exit''), tr))"
  by pat_completeness auto
termination
  by (relation "measure (\<lambda>(fn, maxR, dl, bk, errT, shouldR, attempt, tr). nat (maxR + 2 - attempt))") auto

declare retry_loop.simps [simp del]

text \<open>
  \<^verbatim>\<open>
  const { maxRetries = 3, delay = 1000, backoff = "exponential",
          errorTransformer, shouldRetry = () => true } = options;
  \<close>
\<close>

definition neatCatchRetry ::
  "(nat \<Rightarrow> jsval comp) \<Rightarrow> retry_options \<Rightarrow> outcome promise \<times> retry_trace" where
  "neatCatchRetry fn options =
     retry_loop fn
       (case maxRetries options of Some m \<Rightarrow> m | None \<Rightarrow> 3)
       (case delay options of Some d \<Rightarrow> d | None \<Rightarrow> SafeInt 1000)
       (case backoff options of Some b \<Rightarrow> b | None \<Rightarrow> Exponential)
       (errorTransformer options)
       (case shouldRetry options of Some p \<Rightarrow> p | None \<Rightarrow> (\<lambda>e n. Normal True))
       1
       \<lparr> calls = 0, waits = [] \<rparr>"

section \<open>Notions used to state the properties\<close>

text \<open>
  What one invocation of an operation amounts to for its caller: it succeeded with a value
  (returned a plain value, or an awaitable that fulfils), it failed with a value (threw, or
  returned an awaitable that rejects), or its awaitable never settles.
\<close>

datatype op_result = Succeeded jsval | Failed jsval | Unsettled

definition run_operation :: "operation \<Rightarrow> op_result" where
  "run_operation op =
     (case op () of
        Throw e \<Rightarrow> Failed e
      | Normal v \<Rightarrow>
          if is_awaitable v
          then (case settlement_of v of
                  Fulfilled x \<Rightarrow> Succeeded x
                | Rejected e \<Rightarrow> Failed e
                | Pending \<Rightarrow> Unsettled)
          else Succeeded v)"

text \<open>What a caller holds after \<^verbatim>\<open>await neatCatch(...)\<close>.\<close>

definition settle :: "nc_result comp \<Rightarrow> outcome awaited" where
  "settle c = (case c of Throw e \<Rightarrow> Raised e | Normal (Sync out) \<Rightarrow> Got out | Normal (Async p) \<Rightarrow> await p)"

text \<open>The value \<^verbatim>\<open>transformError\<close> returns (it always returns, see \<open>transformError_Normal\<close>).\<close>

definition transformed :: "jsval \<Rightarrow> transformer option \<Rightarrow> jsval" where
  "transformed e t = (case transformError e t of Normal v \<Rightarrow> v | Throw x \<Rightarrow> x)"

text \<open>
  The error the retry driver reports when it stops after attempt \<open>n\<close>:
  \<^verbatim>\<open>errorTransformer ? transformError(error, (e) => errorTransformer(e, attempt)) : error\<close>.
\<close>

definition report :: "(jsval \<Rightarrow> int \<Rightarrow> jsval comp) option \<Rightarrow> jsval \<Rightarrow> int \<Rightarrow> jsval" where
  "report errT e n = (case errT of None \<Rightarrow> e | Some et \<Rightarrow> transformed e (Some (\<lambda>x. et x n)))"

text \<open>The outcome \<^verbatim>\<open>neatCatch\<close> builds from a settled invocation.\<close>

fun outcome_of :: "op_result \<Rightarrow> transformer option \<Rightarrow> outcome" where
  "outcome_of (Succeeded v) t = (v, Null)"
| "outcome_of (Failed e) t = (Null, transformed e t)"
| "outcome_of Unsettled t = (Null, Null)"

text \<open>The \<^verbatim>\<open>forEach\<close> loop on entries that are all fulfilled, without the exception plumbing.\<close>

fun collect :: "outcome list \<Rightarrow> nat \<Rightarrow> sparse \<times> sparse \<Rightarrow> sparse \<times> sparse" where
  "collect [] index acc = acc"
| "collect ((data, error) # rest) index (rs, es) =
     (if truthy error then collect rest (Suc index) (rs, arr_set es index error)
      else collect rest (Suc index) (arr_set rs index data, es))"

section \<open>Auxiliary facts\<close>

lemma transformError_Normal: "transformError e t = Normal (transformed e t)"
  by (simp add: transformed_def transformError_def try_catch_def split: option.splits completion.splits)

lemma transformed_None: "transformed e None = e"
  by (simp add: transformed_def transformError_def try_catch_def)

lemma transformed_Some_Normal: "f e = Normal v \<Longrightarrow> transformed e (Some f) = v"
  by (simp add: transformed_def transformError_def try_catch_def)

lemma transformed_Some_Throw:
  "f e = Throw te \<Longrightarrow> transformed e (Some f) = AggregateError [e, te] aggregate_message"
  by (simp add: transformed_def transformError_def try_catch_def)

lemma handleError_Normal: "handleError t e = Normal (Null, transformed e t)"
  by (simp add: handleError_def transformError_Normal)

lemma neatCatch_unfold:
  "neatCatch fn t =
     (case fn () of
        Throw e \<Rightarrow> Normal (Sync (Null, transformed e t))
      | Normal v \<Rightarrow>
          if is_awaitable v
          then Normal (Async (case settlement_of v of
                                Fulfilled x \<Rightarrow> Fulfilled (x, Null)
                              | Rejected e \<Rightarrow> Fulfilled (Null, transformed e t)
                              | Pending \<Rightarrow> Pending))
          else Normal (Sync (v, Null)))"
  by (simp add: neatCatch_def try_catch_def handleError_Normal
           split: completion.splits settlement.splits)

lemma settle_neatCatch:
  "settle (neatCatch fn t) =
     (case run_operation fn of
        Succeeded v \<Rightarrow> Got (v, Null)
      | Failed e \<Rightarrow> Got (Null, transformed e t)
      | Unsettled \<Rightarrow> Never)"
  by (simp add: neatCatch_unfold settle_def run_operation_def
           split: completion.splits settlement.splits)

lemma neatCatch_Normal: "\<exists>r. neatCatch fn t = Normal r \<and> (\<forall>e. r \<noteq> Async (Rejected e))"
  by (simp add: neatCatch_unfold split: completion.splits settlement.splits)

lemma retry_loop_step:
  "retry_loop fn maxR dl bk errT shouldR attempt tr =
     (if attempt \<le> maxR + 1 then
        (case run_operation (\<lambda>_. fn (Suc (calls tr))) of
           Unsettled \<Rightarrow> (Pending, tr\<lparr>calls := Suc (calls tr)\<rparr>)
         | Succeeded v \<Rightarrow> (Fulfilled (v, Null), tr\<lparr>calls := Suc (calls tr)\<rparr>)
         | Failed e \<Rightarrow>
             if \<not> truthy e then (Fulfilled (Null, Null), tr\<lparr>calls := Suc (calls tr)\<rparr>)
             else if attempt = maxR + 1
             then (Fulfilled (Null, report errT e attempt), tr\<lparr>calls := Suc (calls tr)\<rparr>)
             else (case shouldR e attempt of
                     Throw x \<Rightarrow> (Rejected x, tr\<lparr>calls := Suc (calls tr)\<rparr>)
                   | Normal b \<Rightarrow>
                       if b
                       then retry_loop fn maxR dl bk errT shouldR (attempt + 1)
                              (tr\<lparr>calls := Suc (calls tr),
                                  waits := waits tr @ [nextDelay bk dl attempt]\<rparr>)
                       else (Fulfilled (Null, report errT e attempt), tr\<lparr>calls := Suc (calls tr)\<rparr>)))
      else (Fulfilled (Null, ErrorObj ''Unexpected retry loop exit''), tr))"
  apply (subst retry_loop.simps)
  apply (simp add: Let_def neatCatch_unfold run_operation_def report_def transformError_Normal
                   transformed_None
              split: completion.splits settlement.splits option.splits)
  done

lemma retry_loop_not_rejected:
  assumes "\<And>e n. \<exists>b. shouldR e n = Normal b"
  shows "fst (retry_loop fn maxR dl bk errT shouldR attempt tr) \<noteq> Rejected x"
proof (induction "nat (maxR + 2 - attempt)" arbitrary: attempt tr)
  case 0
  then have "\<not> attempt \<le> maxR + 1" by simp
  then show ?case by (simp add: retry_loop_step [of _ _ _ _ _ _ attempt])
next
  case (Suc k)
  then have IH: "\<And>tr'. fst (retry_loop fn maxR dl bk errT shouldR (attempt + 1) tr') \<noteq> Rejected x"
    by simp
  have nothrow: "\<And>e y. shouldR e attempt \<noteq> Throw y"
  proof
    fix e y assume "shouldR e attempt = Throw y"
    moreover obtain b where "shouldR e attempt = Normal b" using assms by blast
    ultimately show False by simp
  qed
  show ?case
    using IH nothrow
    by (subst retry_loop_step)
       (auto split: op_result.splits completion.splits)
qed

lemma slot_arr_set: "slot (arr_set xs i v) j = (if j = i then Some v else slot xs j)"
  by (auto simp: slot_def arr_set_def nth_append nth_Cons')

lemma arr_set_not_Nil: "arr_set xs i v \<noteq> []"
  by (auto simp: arr_set_def)

lemma slot_Nil: "slot [] j = None"
  by (simp add: slot_def)

lemma forEach_settled_collect:
  "forEach_settled (map SettledFulfilled outs) k t acc = Normal (collect outs k acc)"
  by (induction outs k acc rule: collect.induct) simp_all

lemma collect_results_slot:
  "slot (fst (collect outs k (rs, es))) j =
     (if k \<le> j \<and> j < k + length outs \<and> \<not> truthy (snd (outs ! (j - k)))
      then Some (fst (outs ! (j - k))) else slot rs j)"
proof (induction outs arbitrary: k rs es)
  case Nil
  then show ?case by auto
next
  case (Cons out outs)
  obtain data error where out: "out = (data, error)" by (cases out)
  show ?case
  proof (cases "j = k")
    case True
    then show ?thesis
      using Cons.IH [of "Suc k"] by (simp add: out slot_arr_set)
  next
    case False
    then have "k \<le> j \<Longrightarrow> (out # outs) ! (j - k) = outs ! (j - Suc k)"
      by (simp add: nth_Cons')
    with False show ?thesis
      by (auto simp: out Cons.IH slot_arr_set)
  qed
qed

lemma collect_errors_slot:
  "slot (snd (collect outs k (rs, es))) j =
     (if k \<le> j \<and> j < k + length outs \<and> truthy (snd (outs ! (j - k)))
      then Some (snd (outs ! (j - k))) else slot es j)"
proof (induction outs arbitrary: k rs es)
  case Nil
  then show ?case by auto
next
  case (Cons out outs)
  obtain data error where out: "out = (data, error)" by (cases out)
  show ?case
  proof (cases "j = k")
    case True
    then show ?thesis
      using Cons.IH [of "Suc k"] by (simp add: out slot_arr_set)
  next
    case False
    then have "k \<le> j \<Longrightarrow> (out # outs) ! (j - k) = outs ! (j - Suc k)"
      by (simp add: nth_Cons')
    with False show ?thesis
      by (auto simp: out Cons.IH slot_arr_set)
  qed
qed

lemma collect_results_Nil:
  "fst (collect outs k (rs, es)) = [] \<longleftrightarrow> rs = [] \<and> (\<forall>out \<in> set outs. truthy (snd out))"
proof (induction outs arbitrary: k rs es)
  case Nil
  then show ?case by simp
next
  case (Cons out outs)
  obtain data error where out: "out = (data, error)" by (cases out)
  show ?case by (simp add: out Cons.IH arr_set_not_Nil)
qed

lemma collect_errors_Nil:
  "snd (collect outs k (rs, es)) = [] \<longleftrightarrow> es = [] \<and> (\<forall>out \<in> set outs. \<not> truthy (snd out))"
proof (induction outs arbitrary: k rs es)
  case Nil
  then show ?case by simp
next
  case (Cons out outs)
  obtain data error where out: "out = (data, error)" by (cases out)
  show ?case by (simp add: out Cons.IH arr_set_not_Nil)
qed

lemma allSettled_Cons_neatCatch:
  assumes "neatCatch op t = Normal r"
  shows "allSettled (r # rs) =
     (if run_operation op = Unsettled then Pending
      else (case allSettled rs of
              Fulfilled ss \<Rightarrow> Fulfilled (SettledFulfilled (outcome_of (run_operation op) t) # ss)
            | Rejected e \<Rightarrow> Rejected e
            | Pending \<Rightarrow> Pending))"
  using assms
  by (auto simp: neatCatch_unfold run_operation_def
           split: completion.splits settlement.splits if_splits)

lemma settled_of_operations:
  "(case map_comp (\<lambda>op. neatCatch op t) ops of
      Throw e \<Rightarrow> Raised e
    | Normal rs \<Rightarrow> await (allSettled rs)) =
   (if \<exists>op \<in> set ops. run_operation op = Unsettled then Never
    else Got (map (\<lambda>op. SettledFulfilled (outcome_of (run_operation op) t)) ops))"
proof (induction ops)
  case Nil
  then show ?case by simp
next
  case (Cons op ops)
  obtain r where r: "neatCatch op t = Normal r"
    using neatCatch_Normal by blast
  show ?case
  proof (cases "map_comp (\<lambda>op. neatCatch op t) ops")
    case (Throw e)
    with Cons.IH show ?thesis by (simp split: if_splits)
  next
    case (Normal rs)
    with Cons.IH show ?thesis
      by (cases "allSettled rs")
         (simp_all add: r allSettled_Cons_neatCatch [OF r] del: allSettled.simps split: if_splits)
  qed
qed

lemma neatCatchAll_unfold:
  "neatCatchAll ops t =
     (if \<exists>op \<in> set ops. run_operation op = Unsettled then Pending
      else (let acc = collect (map (\<lambda>op. outcome_of (run_operation op) t) ops) 0 ([], [])
            in Fulfilled \<lparr> results = (if fst acc \<noteq> [] then Some (fst acc) else None),
                           errors = (if snd acc \<noteq> [] then Some (snd acc) else None) \<rparr>))"
proof -
  let ?outs = "map (\<lambda>op. outcome_of (run_operation op) t) ops"
  let ?hang = "\<exists>op \<in> set ops. run_operation op = Unsettled"
  obtain rs where rs: "map_comp (\<lambda>op. neatCatch op t) ops = Normal rs"
    using settled_of_operations [of t ops]
    by (cases "map_comp (\<lambda>op. neatCatch op t) ops") (simp_all split: if_splits)
  have aw: "await (allSettled rs) = (if ?hang then Never else Got (map SettledFulfilled ?outs))"
    using settled_of_operations [of t ops] by (simp add: rs comp_def)
  obtain ra ea where acc: "collect ?outs 0 ([], []) = (ra, ea)"
    by (cases "collect ?outs 0 ([], [])")
  show ?thesis
  proof (cases ?hang)
    case True
    then show ?thesis by (simp add: neatCatchAll_def rs aw)
  next
    case False
    have fe: "forEach_settled (map SettledFulfilled ?outs) 0 t ([], []) = Normal (ra, ea)"
      by (simp only: forEach_settled_collect acc)
    from False show ?thesis
      by (simp add: neatCatchAll_def rs aw fe acc del: map_map)
  qed
qed

lemma retry_loop_exit:
  "\<not> attempt \<le> maxR + 1 \<Longrightarrow>
   retry_loop fn maxR dl bk errT shouldR attempt tr
     = (Fulfilled (Null, ErrorObj ''Unexpected retry loop exit''), tr)"
  by (subst retry_loop_step) simp

lemma retry_loop_calls_bounds:
  "calls (snd (retry_loop fn maxR dl bk errT shouldR attempt tr)) \<le> calls tr + nat (maxR + 2 - attempt)
   \<and> (attempt \<le> maxR + 1 \<longrightarrow>
        Suc (calls tr) \<le> calls (snd (retry_loop fn maxR dl bk errT shouldR attempt tr)))"
proof (induction "nat (maxR + 2 - attempt)" arbitrary: attempt tr)
  case 0
  then have "\<not> attempt \<le> maxR + 1" by simp
  then show ?case by (simp add: retry_loop_exit)
next
  case (Suc k)
  then have le: "attempt \<le> maxR + 1" and k: "k = nat (maxR + 2 - (attempt + 1))" by simp_all
  note IH = Suc.hyps(1) [OF k]
  have m: "nat (maxR + 2 - attempt) = Suc (nat (maxR + 2 - (attempt + 1)))"
    using le by simp
  let ?tr' = "tr\<lparr>calls := Suc (calls tr), waits := waits tr @ [nextDelay bk dl attempt]\<rparr>"
  have rec: "attempt \<noteq> maxR + 1 \<Longrightarrow>
      calls (snd (retry_loop fn maxR dl bk errT shouldR (attempt + 1) ?tr'))
         \<le> calls tr + nat (maxR + 2 - attempt)
      \<and> Suc (calls tr) \<le> calls (snd (retry_loop fn maxR dl bk errT shouldR (attempt + 1) ?tr'))"
    using IH [of ?tr'] le m by simp
  show ?case
    using le rec m
    by (subst (1 2) retry_loop_step)
       (auto split: op_result.splits completion.splits)
qed

lemma retry_loop_waits:
  "attempt \<le> maxR + 1 \<Longrightarrow>
   waits (snd (retry_loop fn maxR dl bk errT shouldR attempt tr))
     = waits tr @ map (nextDelay bk dl)
         [attempt .. attempt + int (calls (snd (retry_loop fn maxR dl bk errT shouldR attempt tr)))
                       - int (calls tr) - 2]"
proof (induction "nat (maxR + 2 - attempt)" arbitrary: attempt tr)
  case 0
  then show ?case by simp
next
  case (Suc k)
  then have le: "attempt \<le> maxR + 1" and k: "k = nat (maxR + 2 - (attempt + 1))" by simp_all
  let ?tr' = "tr\<lparr>calls := Suc (calls tr), waits := waits tr @ [nextDelay bk dl attempt]\<rparr>"
  let ?R = "retry_loop fn maxR dl bk errT shouldR (attempt + 1) ?tr'"
  have rec: "waits (snd ?R) = waits tr @ map (nextDelay bk dl)
               [attempt .. attempt + int (calls (snd ?R)) - int (calls tr) - 2]"
    if ne: "attempt \<noteq> maxR + 1"
  proof -
    have le': "attempt + 1 \<le> maxR + 1" using le ne by simp
    have lo: "Suc (calls ?tr') \<le> calls (snd ?R)"
      using retry_loop_calls_bounds [of fn maxR dl bk errT shouldR "attempt + 1" ?tr'] le' by blast
    have "waits (snd ?R) = waits ?tr' @ map (nextDelay bk dl)
              [attempt + 1 .. attempt + 1 + int (calls (snd ?R)) - int (calls ?tr') - 2]"
      using Suc.hyps(1) [OF k le', of ?tr'] .
    also have "\<dots> = waits tr @ nextDelay bk dl attempt # map (nextDelay bk dl)
              [attempt + 1 .. attempt + int (calls (snd ?R)) - int (calls tr) - 2]"
      by (simp add: algebra_simps)
    also have "\<dots> = waits tr @ map (nextDelay bk dl)
              [attempt .. attempt + int (calls (snd ?R)) - int (calls tr) - 2]"
      using lo by (subst (2) upto_rec1) simp_all
    finally show ?thesis .
  qed
  show ?case
    using le rec
    by (subst (1 2) retry_loop_step)
       (auto split: op_result.splits completion.splits)
qed

lemma retry_loop_fulfilled:
  assumes "\<And>e n. \<exists>b. shouldR e n = Normal b"
    and "\<And>k. run_operation (\<lambda>_. fn k) \<noteq> Unsettled"
  shows "\<exists>out. fst (retry_loop fn maxR dl bk errT shouldR attempt tr) = Fulfilled out"
proof (induction "nat (maxR + 2 - attempt)" arbitrary: attempt tr)
  case 0
  then have "\<not> attempt \<le> maxR + 1" by simp
  then show ?case by (simp add: retry_loop_exit)
next
  case (Suc k)
  then have IH: "\<And>tr'. \<exists>out. fst (retry_loop fn maxR dl bk errT shouldR (attempt + 1) tr') = Fulfilled out"
    by simp
  have nothrow: "\<And>e y. shouldR e attempt \<noteq> Throw y"
  proof
    fix e y assume "shouldR e attempt = Throw y"
    moreover obtain b where "shouldR e attempt = Normal b" using assms(1) by blast
    ultimately show False by simp
  qed
  show ?case
    using IH nothrow assms(2) [of "Suc (calls tr)"]
    by (subst retry_loop_step)
       (auto split: op_result.splits completion.splits)
qed

lemma retry_loop_all_fail:
  assumes fail: "\<And>k. \<exists>e. run_operation (\<lambda>_. fn k) = Failed e \<and> truthy e"
    and always: "\<And>e n. shouldR e n = Normal True"
  shows "attempt \<le> maxR + 1 \<Longrightarrow>
     \<exists>e. run_operation (\<lambda>_. fn (calls tr + nat (maxR + 2 - attempt))) = Failed e \<and> truthy e \<and>
         retry_loop fn maxR dl bk errT shouldR attempt tr
           = (Fulfilled (Null, report errT e (maxR + 1)),
              tr\<lparr>calls := calls tr + nat (maxR + 2 - attempt),
                  waits := waits tr @ map (nextDelay bk dl) [attempt .. maxR]\<rparr>)"
proof (induction "nat (maxR + 2 - attempt)" arbitrary: attempt tr)
  case 0
  then show ?case by simp
next
  case (Suc k)
  then have le: "attempt \<le> maxR + 1" and k: "k = nat (maxR + 2 - (attempt + 1))" by simp_all
  obtain e where e: "run_operation (\<lambda>_. fn (Suc (calls tr))) = Failed e" "truthy e"
    using fail by blast
  show ?case
  proof (cases "attempt = maxR + 1")
    case True
    then show ?thesis
      using e by (subst retry_loop_step) (auto simp: always)
  next
    case False
    let ?tr' = "tr\<lparr>calls := Suc (calls tr), waits := waits tr @ [nextDelay bk dl attempt]\<rparr>"
    have le': "attempt + 1 \<le> maxR + 1" using le False by simp
    have m: "calls ?tr' + nat (maxR + 2 - (attempt + 1)) = calls tr + nat (maxR + 2 - attempt)"
      using le by simp
    have up: "[attempt .. maxR] = attempt # [attempt + 1 .. maxR]"
      using le' by (subst upto_rec1) simp_all
    from Suc.hyps(1) [OF k le', of ?tr']
    obtain e' where e': "run_operation (\<lambda>_. fn (calls tr + nat (maxR + 2 - attempt))) = Failed e'"
        "truthy e'"
        "retry_loop fn maxR dl bk errT shouldR (attempt + 1) ?tr'
           = (Fulfilled (Null, report errT e' (maxR + 1)),
              ?tr'\<lparr>calls := calls ?tr' + nat (maxR + 2 - (attempt + 1)),
                    waits := waits ?tr' @ map (nextDelay bk dl) [attempt + 1 .. maxR]\<rparr>)"
      unfolding m by blast
    have "retry_loop fn maxR dl bk errT shouldR attempt tr
            = retry_loop fn maxR dl bk errT shouldR (attempt + 1) ?tr'"
      using e le False by (subst retry_loop_step) (simp add: always)
    with e' show ?thesis
      using m by (simp add: up)
  qed
qed

lemma neatCatchAll_slots:
  assumes "\<forall>op \<in> set ops. run_operation op \<noteq> Unsettled"
  shows "\<exists>b. neatCatchAll ops t = Fulfilled b
     \<and> (\<forall>i. batch_slot (results b) i =
             (if i < length ops \<and> \<not> truthy (snd (outcome_of (run_operation (ops ! i)) t))
              then Some (fst (outcome_of (run_operation (ops ! i)) t)) else None))
     \<and> (\<forall>i. batch_slot (errors b) i =
             (if i < length ops \<and> truthy (snd (outcome_of (run_operation (ops ! i)) t))
              then Some (snd (outcome_of (run_operation (ops ! i)) t)) else None))
     \<and> (results b = None \<longleftrightarrow> (\<forall>op \<in> set ops. truthy (snd (outcome_of (run_operation op) t))))
     \<and> (errors b = None \<longleftrightarrow> (\<forall>op \<in> set ops. \<not> truthy (snd (outcome_of (run_operation op) t))))"
proof -
  let ?outs = "map (\<lambda>op. outcome_of (run_operation op) t) ops"
  obtain ra ea where acc: "collect ?outs 0 ([], []) = (ra, ea)"
    by (cases "collect ?outs 0 ([], [])")
  let ?b = "\<lparr> results = (if ra \<noteq> [] then Some ra else None),
              errors = (if ea \<noteq> [] then Some ea else None) \<rparr>"
  have b: "neatCatchAll ops t = Fulfilled ?b"
    using assms by (simp add: neatCatchAll_unfold acc)
  have ra: "slot ra i =
              (if i < length ops \<and> \<not> truthy (snd (outcome_of (run_operation (ops ! i)) t))
               then Some (fst (outcome_of (run_operation (ops ! i)) t)) else None)" for i
    using collect_results_slot [of ?outs 0 "[]" "[]" i]
    by (cases "i < length ops") (simp_all add: acc slot_Nil)
  have ea: "slot ea i =
              (if i < length ops \<and> truthy (snd (outcome_of (run_operation (ops ! i)) t))
               then Some (snd (outcome_of (run_operation (ops ! i)) t)) else None)" for i
    using collect_errors_slot [of ?outs 0 "[]" "[]" i]
    by (cases "i < length ops") (simp_all add: acc slot_Nil)
  have rn: "ra = [] \<longleftrightarrow> (\<forall>op \<in> set ops. truthy (snd (outcome_of (run_operation op) t)))"
    using collect_results_Nil [of ?outs 0 "[]" "[]"] by (simp add: acc)
  have en: "ea = [] \<longleftrightarrow> (\<forall>op \<in> set ops. \<not> truthy (snd (outcome_of (run_operation op) t)))"
    using collect_errors_Nil [of ?outs 0 "[]" "[]"] by (simp add: acc)
  have s1: "\<forall>i. batch_slot (results ?b) i =
             (if i < length ops \<and> \<not> truthy (snd (outcome_of (run_operation (ops ! i)) t))
              then Some (fst (outcome_of (run_operation (ops ! i)) t)) else None)"
  proof
    fix i
    show "batch_slot (results ?b) i =
             (if i < length ops \<and> \<not> truthy (snd (outcome_of (run_operation (ops ! i)) t))
              then Some (fst (outcome_of (run_operation (ops ! i)) t)) else None)"
      using ra [of i] by (cases "ra = []") (auto simp: batch_slot_def slot_Nil)
  qed
  have s2: "\<forall>i. batch_slot (errors ?b) i =
             (if i < length ops \<and> truthy (snd (outcome_of (run_operation (ops ! i)) t))
              then Some (snd (outcome_of (run_operation (ops ! i)) t)) else None)"
  proof
    fix i
    show "batch_slot (errors ?b) i =
             (if i < length ops \<and> truthy (snd (outcome_of (run_operation (ops ! i)) t))
              then Some (snd (outcome_of (run_operation (ops ! i)) t)) else None)"
      using ea [of i] by (cases "ea = []") (auto simp: batch_slot_def slot_Nil)
  qed
  have s3: "results ?b = None \<longleftrightarrow> (\<forall>op \<in> set ops. truthy (snd (outcome_of (run_operation op) t)))"
    using rn by simp
  have s4: "errors ?b = None \<longleftrightarrow> (\<forall>op \<in> set ops. \<not> truthy (snd (outcome_of (run_operation op) t)))"
    using en by simp
  show ?thesis
    by (rule exI [of _ ?b]) (intro conjI b s1 s2 s3 s4)
qed

lemma retry_loop_retry_step:
  assumes "run_operation (\<lambda>_. fn (Suc (calls tr))) = Failed e" "truthy e"
    and "shouldR e a = Normal True" "a < maxR + 1"
  shows "retry_loop fn maxR dl bk errT shouldR a tr
           = retry_loop fn maxR dl bk errT shouldR (a + 1)
               (tr\<lparr>calls := Suc (calls tr), waits := waits tr @ [nextDelay bk dl a]\<rparr>)"
  using assms by (subst retry_loop_step) simp

lemma retry_loop_stop_step:
  assumes "run_operation (\<lambda>_. fn (Suc (calls tr))) = Failed e" "truthy e"
    and "a \<le> maxR + 1" "a = maxR + 1 \<or> shouldR e a = Normal False"
  shows "retry_loop fn maxR dl bk errT shouldR a tr
           = (Fulfilled (Null, report errT e a), tr\<lparr>calls := Suc (calls tr)\<rparr>)"
  using assms by (subst retry_loop_step) auto

lemma retry_loop_prefix:
  assumes "\<And>k. k < j \<Longrightarrow> \<exists>e. run_operation (\<lambda>_. fn (calls tr + k + 1)) = Failed e \<and> truthy e
                              \<and> shouldR e (a + int k) = Normal True"
    and "a + int j \<le> maxR + 1"
  shows "retry_loop fn maxR dl bk errT shouldR a tr
           = retry_loop fn maxR dl bk errT shouldR (a + int j)
               (tr\<lparr>calls := calls tr + j,
                   waits := waits tr @ map (nextDelay bk dl) [a .. a + int j - 1]\<rparr>)"
  using assms
proof (induction j arbitrary: a tr)
  case 0
  then show ?case by simp
next
  case (Suc j)
  let ?tr' = "tr\<lparr>calls := Suc (calls tr), waits := waits tr @ [nextDelay bk dl a]\<rparr>"
  from Suc.prems(1) [of 0]
  obtain e where e: "run_operation (\<lambda>_. fn (Suc (calls tr))) = Failed e" "truthy e"
      "shouldR e a = Normal True"
    by auto
  have lt: "a < maxR + 1" using Suc.prems(2) by simp
  have first: "retry_loop fn maxR dl bk errT shouldR a tr
                 = retry_loop fn maxR dl bk errT shouldR (a + 1) ?tr'"
    using e lt by (rule retry_loop_retry_step [of fn tr e shouldR a maxR])
  have rest: "retry_loop fn maxR dl bk errT shouldR (a + 1) ?tr'
          = retry_loop fn maxR dl bk errT shouldR (a + 1 + int j)
               (?tr'\<lparr>calls := calls ?tr' + j,
                     waits := waits ?tr' @ map (nextDelay bk dl) [a + 1 .. a + 1 + int j - 1]\<rparr>)"
  proof (rule Suc.IH)
    fix k assume "k < j"
    then have "Suc k < Suc j" by simp
    from Suc.prems(1) [OF this]
    show "\<exists>e. run_operation (\<lambda>_. fn (calls ?tr' + k + 1)) = Failed e \<and> truthy e
               \<and> shouldR e (a + 1 + int k) = Normal True"
      by (simp add: algebra_simps)
  next
    show "a + 1 + int j \<le> maxR + 1" using Suc.prems(2) by simp
  qed
  have up: "[a .. a + int (Suc j) - 1] = a # [a + 1 .. a + 1 + int j - 1]"
    by (subst upto_rec1) (simp_all add: algebra_simps)
  show ?case
    unfolding first rest up by (simp add: algebra_simps)
qed

section \<open>Sync and async dispatch\<close>

text \<open>
  Claim C3. For every plain value \<open>v\<close> (one that fails the awaitable test),
  \<^verbatim>\<open>neatCatch(() => v)\<close> returns the outcome \<open>(v, null)\<close> itself, synchronously. For every
  returned value with a callable \<^verbatim>\<open>then\<close> and a callable \<^verbatim>\<open>catch\<close>, and for every instance
  of the built-in \<^verbatim>\<open>Promise\<close>, it returns an awaitable of the outcome, which is fulfilled
  with \<open>(x, null)\<close> when the value fulfils with \<open>x\<close>. The awaitable test is the capability
  check, not the instance check: a foreign object with both members passes it without
  being a \<^verbatim>\<open>Promise\<close> instance.
\<close>

theorem neatCatch_sync_async_dispatch:
  "(\<not> is_awaitable v \<longrightarrow> neatCatch (\<lambda>_. Normal v) t = Normal (Sync (v, Null)))
   \<and> (then_callable v \<and> catch_callable v \<longrightarrow>
        (\<exists>p. neatCatch (\<lambda>_. Normal v) t = Normal (Async p)
              \<and> (\<forall>x. settlement_of v = Fulfilled x \<longrightarrow> p = Fulfilled (x, Null))))
   \<and> (instanceof_Promise v \<longrightarrow>
        (\<exists>p. neatCatch (\<lambda>_. Normal v) t = Normal (Async p)
              \<and> (\<forall>x. settlement_of v = Fulfilled x \<longrightarrow> p = Fulfilled (x, Null))))
   \<and> (is_awaitable v \<longleftrightarrow> instanceof_Promise v \<or> (then_callable v \<and> catch_callable v))
   \<and> is_awaitable (Thenable (Foreign True True) st)
   \<and> \<not> instanceof_Promise (Thenable (Foreign True True) st)"
proof -
  have duck: "is_awaitable v \<longleftrightarrow> instanceof_Promise v \<or> (then_callable v \<and> catch_callable v)"
    by (cases v rule: then_callable.cases) (simp_all add: is_awaitable_def)
  show ?thesis
    by (simp add: duck neatCatch_unfold split: settlement.splits)
       (simp add: is_awaitable_def)
qed

theorem neatCatch_sync_async_dispatch_witness:
  "\<not> is_awaitable (Num 42)
   \<and> neatCatch (\<lambda>_. Normal (Num 42)) None = Normal (Sync (Num 42, Null))
   \<and> then_callable (Thenable (Foreign True True) (Fulfilled (Str ''ok'')))
   \<and> catch_callable (Thenable (Foreign True True) (Fulfilled (Str ''ok'')))
   \<and> neatCatch (\<lambda>_. Normal (Thenable (Foreign True True) (Fulfilled (Str ''ok'')))) None
       = Normal (Async (Fulfilled (Str ''ok'', Null)))
   \<and> instanceof_Promise (Thenable Native (Fulfilled (Str ''ok'')))
   \<and> neatCatch (\<lambda>_. Normal (Thenable Native (Fulfilled (Str ''ok'')))) None
       = Normal (Async (Fulfilled (Str ''ok'', Null)))"
  using neatCatch_sync_async_dispatch [of "Num 42" None]
        neatCatch_sync_async_dispatch [of "Thenable (Foreign True True) (Fulfilled (Str ''ok''))" None]
        neatCatch_sync_async_dispatch [of "Thenable Native (Fulfilled (Str ''ok''))" None]
  by (auto simp: is_awaitable_def)

section \<open>Containment of a failing transformer\<close>

text \<open>
  Claim C7. When the supplied error transformer throws on the failure value, the throw
  does not reach the caller: \<^verbatim>\<open>transformError\<close> returns an \<^verbatim>\<open>AggregateError\<close> whose
  \<^verbatim>\<open>errors\<close> are the original failure followed by the transformer's own failure, under
  a fixed message; \<^verbatim>\<open>neatCatch\<close> reports that aggregate in the error slot of a failure
  outcome, for an operation that throws and for one whose awaitable rejects.
\<close>

theorem transformer_failure_contained:
  assumes "f e = Throw te"
  shows "transformError e (Some f) = Normal (AggregateError [e, te] aggregate_message)
     \<and> (fn () = Throw e \<longrightarrow>
          neatCatch fn (Some f) = Normal (Sync (Null, AggregateError [e, te] aggregate_message)))
     \<and> (fn () = Normal v \<and> is_awaitable v \<and> settlement_of v = Rejected e \<longrightarrow>
          neatCatch fn (Some f)
            = Normal (Async (Fulfilled (Null, AggregateError [e, te] aggregate_message))))"
  using assms
  by (simp add: transformError_Normal neatCatch_unfold transformed_Some_Throw)

theorem transformer_failure_contained_witness:
  "(\<lambda>e. Throw (ErrorObj ''transformer error'')) (ErrorObj ''original error'')
     = (Throw (ErrorObj ''transformer error'') :: jsval comp)
   \<and> neatCatch (\<lambda>_. Throw (ErrorObj ''original error''))
        (Some (\<lambda>e. Throw (ErrorObj ''transformer error'')))
     = Normal (Sync (Null, AggregateError [ErrorObj ''original error'',
                                             ErrorObj ''transformer error''] aggregate_message))"
  using transformer_failure_contained
          [of "\<lambda>e. Throw (ErrorObj ''transformer error'')" "ErrorObj ''original error''"
              "ErrorObj ''transformer error''" "\<lambda>_. Throw (ErrorObj ''original error'')"]
  by simp

section \<open>The empty batch\<close>

text \<open>
  Claim C10, as amended. On an empty sequence of operations \<^verbatim>\<open>neatCatchAll\<close> resolves to
  \<^verbatim>\<open>{ results: null, errors: null }\<close>, and only there: no other batch resolves to that
  object, so the empty batch can be told from every other one at the top level. Its
  \<^verbatim>\<open>results\<close> slot is the one of every batch whose operations all fail with a truthy
  transformed failure value, and its \<^verbatim>\<open>errors\<close> slot is the one of every batch whose
  operations all succeed.
\<close>

theorem neatCatchAll_empty:
  "neatCatchAll [] t = Fulfilled \<lparr> results = None, errors = None \<rparr>
   \<and> (neatCatchAll ops t = Fulfilled \<lparr> results = None, errors = None \<rparr> \<longleftrightarrow> ops = [])
   \<and> ((\<forall>op \<in> set ops. \<exists>e e'. run_operation op = Failed e \<and> transformError e t = Normal e'
                                  \<and> truthy e') \<longrightarrow>
        (\<exists>b. neatCatchAll ops t = Fulfilled b \<and> results b = None))
   \<and> ((\<forall>op \<in> set ops. \<exists>v. run_operation op = Succeeded v) \<longrightarrow>
        (\<exists>b. neatCatchAll ops t = Fulfilled b \<and> errors b = None))"
proof -
  have e: "neatCatchAll [] t = Fulfilled \<lparr> results = None, errors = None \<rparr>"
    by (simp add: neatCatchAll_unfold)
  have only: "neatCatchAll ops t \<noteq> Fulfilled \<lparr> results = None, errors = None \<rparr>" if ne: "ops \<noteq> []"
  proof (cases "\<forall>op \<in> set ops. run_operation op \<noteq> Unsettled")
    case True
    from neatCatchAll_slots [OF True, of t]
    obtain b where b: "neatCatchAll ops t = Fulfilled b"
      and rn: "results b = None \<longleftrightarrow> (\<forall>op \<in> set ops. truthy (snd (outcome_of (run_operation op) t)))"
      and en: "errors b = None \<longleftrightarrow> (\<forall>op \<in> set ops. \<not> truthy (snd (outcome_of (run_operation op) t)))"
      by (elim exE conjE) (rule that, assumption+)
    obtain op0 where "op0 \<in> set ops" using ne by (cases ops) auto
    with rn en have "results b \<noteq> None \<or> errors b \<noteq> None" by blast
    then have "b \<noteq> \<lparr> results = None, errors = None \<rparr>" by auto
    with b show ?thesis by simp
  next
    case False
    then show ?thesis by (simp add: neatCatchAll_unfold)
  qed
  have iff: "neatCatchAll ops t = Fulfilled \<lparr> results = None, errors = None \<rparr> \<longleftrightarrow> ops = []"
    using e only by blast
  have f: "(\<forall>op \<in> set ops. \<exists>e e'. run_operation op = Failed e \<and> transformError e t = Normal e'
                                  \<and> truthy e') \<longrightarrow>
        (\<exists>b. neatCatchAll ops t = Fulfilled b \<and> results b = None)"
  proof
    assume a: "\<forall>op \<in> set ops. \<exists>e e'. run_operation op = Failed e \<and> transformError e t = Normal e'
                                  \<and> truthy e'"
    then have st: "\<forall>op \<in> set ops. run_operation op \<noteq> Unsettled" by auto
    from a have tr: "\<forall>op \<in> set ops. truthy (snd (outcome_of (run_operation op) t))"
      by (auto simp: transformError_Normal)
    from neatCatchAll_slots [OF st, of t]
    obtain b where "neatCatchAll ops t = Fulfilled b"
      and "results b = None \<longleftrightarrow> (\<forall>op \<in> set ops. truthy (snd (outcome_of (run_operation op) t)))"
      by (elim exE conjE) (rule that, assumption+)
    with tr show "\<exists>b. neatCatchAll ops t = Fulfilled b \<and> results b = None" by blast
  qed
  have g: "(\<forall>op \<in> set ops. \<exists>v. run_operation op = Succeeded v) \<longrightarrow>
        (\<exists>b. neatCatchAll ops t = Fulfilled b \<and> errors b = None)"
  proof
    assume a: "\<forall>op \<in> set ops. \<exists>v. run_operation op = Succeeded v"
    then have st: "\<forall>op \<in> set ops. run_operation op \<noteq> Unsettled" by auto
    from a have fl: "\<forall>op \<in> set ops. \<not> truthy (snd (outcome_of (run_operation op) t))" by auto
    from neatCatchAll_slots [OF st, of t]
    obtain b where "neatCatchAll ops t = Fulfilled b"
      and "errors b = None \<longleftrightarrow> (\<forall>op \<in> set ops. \<not> truthy (snd (outcome_of (run_operation op) t)))"
      by (elim exE conjE) (rule that, assumption+)
    with fl show "\<exists>b. neatCatchAll ops t = Fulfilled b \<and> errors b = None" by blast
  qed
  from e iff f g show ?thesis by blast
qed

theorem neatCatchAll_empty_witness:
  "run_operation (\<lambda>_. Normal (Thenable Native (Rejected (ErrorObj ''down'')))) = Failed (ErrorObj ''down'')
   \<and> run_operation (\<lambda>_. Normal (Thenable Native (Fulfilled (Str ''ok'')))) = Succeeded (Str ''ok'')
   \<and> (\<exists>b. neatCatchAll [\<lambda>_. Normal (Thenable Native (Rejected (ErrorObj ''down'')))] None
            = Fulfilled b \<and> results b = None)
   \<and> (\<exists>b. neatCatchAll [\<lambda>_. Normal (Thenable Native (Fulfilled (Str ''ok'')))] None
            = Fulfilled b \<and> errors b = None)
   \<and> neatCatchAll [\<lambda>_. Normal (Thenable Native (Fulfilled (Str ''ok'')))] None
        \<noteq> Fulfilled \<lparr> results = None, errors = None \<rparr>"
proof -
  let ?down = "(\<lambda>_. Normal (Thenable Native (Rejected (ErrorObj ''down'')))) :: operation"
  let ?ok = "(\<lambda>_. Normal (Thenable Native (Fulfilled (Str ''ok'')))) :: operation"
  have d: "run_operation ?down = Failed (ErrorObj ''down'')"
    and o: "run_operation ?ok = Succeeded (Str ''ok'')"
    by (simp_all add: run_operation_def is_awaitable_def)
  have td: "transformError (ErrorObj ''down'') None = Normal (ErrorObj ''down'')"
    by (simp add: transformError_def try_catch_def)
  have af: "\<forall>op \<in> set [?down]. \<exists>e e'. run_operation op = Failed e
              \<and> transformError e None = Normal e' \<and> truthy e'"
    using d td by simp
  have as: "\<forall>op \<in> set [?ok]. \<exists>v. run_operation op = Succeeded v"
    using o by simp
  have w1: "\<exists>b. neatCatchAll [?down] None = Fulfilled b \<and> results b = None"
    using neatCatchAll_empty [of None "[?down]"] af by blast
  have w2: "\<exists>b. neatCatchAll [?ok] None = Fulfilled b \<and> errors b = None"
    using neatCatchAll_empty [of None "[?ok]"] as by blast
  have w3: "neatCatchAll [?ok] None \<noteq> Fulfilled \<lparr> results = None, errors = None \<rparr>"
    using neatCatchAll_empty [of None "[?ok]"] by simp
  from d o w1 w2 w3 show ?thesis by simp
qed

text \<open>
  The claim as stated fails twice. An all-failed batch need not show \<^verbatim>\<open>results: null\<close>:
  one whose only operation throws \<^verbatim>\<open>null\<close> comes back with a \<open>results\<close> array. And the
  empty batch is distinguishable at the top level from an all-failed and from an
  all-succeeded batch, each of which has one of the two fields set.
\<close>

theorem empty_batch_is_distinguishable:
  "neatCatchAll [] None = Fulfilled \<lparr> results = None, errors = None \<rparr>
   \<and> run_operation (\<lambda>_. Throw Null) = Failed Null
   \<and> neatCatchAll [\<lambda>_. Throw Null] None
       = Fulfilled \<lparr> results = Some [Some Null], errors = None \<rparr>
   \<and> run_operation (\<lambda>_. Throw (ErrorObj ''down'')) = Failed (ErrorObj ''down'')
   \<and> neatCatchAll [\<lambda>_. Throw (ErrorObj ''down'')] None
       = Fulfilled \<lparr> results = None, errors = Some [Some (ErrorObj ''down'')] \<rparr>
   \<and> neatCatchAll [\<lambda>_. Throw (ErrorObj ''down'')] None \<noteq> neatCatchAll [] None
   \<and> run_operation (\<lambda>_. Normal (Str ''ok'')) = Succeeded (Str ''ok'')
   \<and> neatCatchAll [\<lambda>_. Normal (Str ''ok'')] None
       = Fulfilled \<lparr> results = Some [Some (Str ''ok'')], errors = None \<rparr>
   \<and> neatCatchAll [\<lambda>_. Normal (Str ''ok'')] None \<noteq> neatCatchAll [] None"
  by (simp add: neatCatchAll_unfold run_operation_def is_awaitable_def transformed_None
                arr_set_def)

section \<open>No throw and no rejection across the boundary\<close>

text \<open>
  The guarded paths. For every operation and every error transformer, throwing or not:
  \<^verbatim>\<open>neatCatch\<close> and a function made by \<^verbatim>\<open>createNeatWrapper\<close> return normally, and what
  they return is never a rejected awaitable; \<^verbatim>\<open>neatCatchAll\<close> never rejects;
  \<^verbatim>\<open>neatCatchRetry\<close> never rejects when the \<^verbatim>\<open>shouldRetry\<close> predicate is the default
  one or one that does not throw. When every awaitable the operations return settles,
  each of them ends in a value-level outcome.
\<close>

theorem guarded_paths_never_throw:
  "(\<exists>r. neatCatch fn t = Normal r \<and> (\<forall>x. r \<noteq> Async (Rejected x)))
   \<and> (\<exists>r. createNeatWrapper g t args = Normal r \<and> (\<forall>x. r \<noteq> Async (Rejected x)))
   \<and> (\<forall>x. neatCatchAll ops t \<noteq> Rejected x)
   \<and> (\<forall>x. fst (neatCatchRetry f (opts\<lparr>shouldRetry := None\<rparr>)) \<noteq> Rejected x)
   \<and> ((\<forall>e n. \<exists>b. p e n = Normal b) \<longrightarrow>
        (\<forall>x. fst (neatCatchRetry f (opts\<lparr>shouldRetry := Some p\<rparr>)) \<noteq> Rejected x))
   \<and> (run_operation fn \<noteq> Unsettled \<longrightarrow> (\<exists>out. settle (neatCatch fn t) = Got out))
   \<and> ((\<forall>op \<in> set ops. run_operation op \<noteq> Unsettled) \<longrightarrow>
        (\<exists>b. neatCatchAll ops t = Fulfilled b))
   \<and> ((\<forall>k. run_operation (\<lambda>_. f k) \<noteq> Unsettled) \<and> (\<forall>e n. \<exists>b. p e n = Normal b) \<longrightarrow>
        (\<exists>out. fst (neatCatchRetry f (opts\<lparr>shouldRetry := Some p\<rparr>)) = Fulfilled out))
   \<and> ((\<forall>k. run_operation (\<lambda>_. f k) \<noteq> Unsettled) \<longrightarrow>
        (\<exists>out. fst (neatCatchRetry f (opts\<lparr>shouldRetry := None\<rparr>)) = Fulfilled out))"
proof -
  have c1: "\<exists>r. neatCatch fn t = Normal r \<and> (\<forall>x. r \<noteq> Async (Rejected x))"
    by (rule neatCatch_Normal)
  have c2: "\<exists>r. createNeatWrapper g t args = Normal r \<and> (\<forall>x. r \<noteq> Async (Rejected x))"
    unfolding createNeatWrapper_def by (rule neatCatch_Normal)
  have c3: "\<forall>x. neatCatchAll ops t \<noteq> Rejected x"
    by (simp add: neatCatchAll_unfold Let_def)
  have c4: "\<forall>x. fst (neatCatchRetry f (opts\<lparr>shouldRetry := None\<rparr>)) \<noteq> Rejected x"
    unfolding neatCatchRetry_def by (intro allI retry_loop_not_rejected) auto
  have c5: "(\<forall>e n. \<exists>b. p e n = Normal b) \<longrightarrow>
        (\<forall>x. fst (neatCatchRetry f (opts\<lparr>shouldRetry := Some p\<rparr>)) \<noteq> Rejected x)"
  proof (intro impI allI)
    fix x assume tot: "\<forall>e n. \<exists>b. p e n = Normal b"
    show "fst (neatCatchRetry f (opts\<lparr>shouldRetry := Some p\<rparr>)) \<noteq> Rejected x"
      unfolding neatCatchRetry_def using tot by (intro retry_loop_not_rejected) simp
  qed
  have c6: "run_operation fn \<noteq> Unsettled \<longrightarrow> (\<exists>out. settle (neatCatch fn t) = Got out)"
    by (simp add: settle_neatCatch split: op_result.splits)
  have c7: "(\<forall>op \<in> set ops. run_operation op \<noteq> Unsettled) \<longrightarrow>
        (\<exists>b. neatCatchAll ops t = Fulfilled b)"
    by (simp add: neatCatchAll_unfold Let_def)
  have c8: "(\<forall>k. run_operation (\<lambda>_. f k) \<noteq> Unsettled) \<and> (\<forall>e n. \<exists>b. p e n = Normal b) \<longrightarrow>
        (\<exists>out. fst (neatCatchRetry f (opts\<lparr>shouldRetry := Some p\<rparr>)) = Fulfilled out)"
  proof (intro impI)
    assume h: "(\<forall>k. run_operation (\<lambda>_. f k) \<noteq> Unsettled) \<and> (\<forall>e n. \<exists>b. p e n = Normal b)"
    show "\<exists>out. fst (neatCatchRetry f (opts\<lparr>shouldRetry := Some p\<rparr>)) = Fulfilled out"
      unfolding neatCatchRetry_def using h by (intro retry_loop_fulfilled) simp_all
  qed
  have c9: "(\<forall>k. run_operation (\<lambda>_. f k) \<noteq> Unsettled) \<longrightarrow>
        (\<exists>out. fst (neatCatchRetry f (opts\<lparr>shouldRetry := None\<rparr>)) = Fulfilled out)"
  proof (intro impI)
    assume h: "\<forall>k. run_operation (\<lambda>_. f k) \<noteq> Unsettled"
    show "\<exists>out. fst (neatCatchRetry f (opts\<lparr>shouldRetry := None\<rparr>)) = Fulfilled out"
      unfolding neatCatchRetry_def using h by (intro retry_loop_fulfilled) auto
  qed
  from c1 c2 c3 c4 c5 c6 c7 c8 c9 show ?thesis by blast
qed

theorem guarded_paths_never_throw_witness:
  "(\<forall>e n. \<exists>b. (\<lambda>(e::jsval) (n::int). Normal (n < 2)) e n = (Normal b :: bool comp))
   \<and> (\<forall>k. run_operation (\<lambda>_. (\<lambda>k. Throw (Str ''boom'')) k) \<noteq> Unsettled)
   \<and> run_operation (\<lambda>_. Throw (Str ''boom'')) \<noteq> Unsettled
   \<and> (\<exists>out. fst (neatCatchRetry (\<lambda>k. Throw (Str ''boom''))
          (\<lparr> maxRetries = None, delay = None, backoff = None, errorTransformer = None,
             shouldRetry = None \<rparr>\<lparr>shouldRetry := Some (\<lambda>e n. Normal (n < 2))\<rparr>)) = Fulfilled out)
   \<and> (\<exists>b. neatCatchAll [\<lambda>_. Throw (Str ''boom'')] None = Fulfilled b)
   \<and> (\<exists>out. settle (neatCatch (\<lambda>_. Throw (Str ''boom'')) None) = Got out)"
proof -
  have h1: "\<forall>e n. \<exists>b. (\<lambda>(e::jsval) (n::int). Normal (n < 2)) e n = (Normal b :: bool comp)" by simp
  have h2: "\<forall>k. run_operation (\<lambda>_. (\<lambda>k::nat. Throw (Str ''boom'')) k) \<noteq> Unsettled"
    by (simp add: run_operation_def)
  have h3: "run_operation (\<lambda>_. Throw (Str ''boom'')) \<noteq> Unsettled"
    by (simp add: run_operation_def)
  have h4: "\<forall>op \<in> set [\<lambda>_. Throw (Str ''boom'')]. run_operation op \<noteq> Unsettled"
    by (simp add: run_operation_def)
  have "(\<exists>out. fst (neatCatchRetry (\<lambda>k. Throw (Str ''boom''))
          (\<lparr> maxRetries = None, delay = None, backoff = None, errorTransformer = None,
             shouldRetry = None \<rparr>\<lparr>shouldRetry := Some (\<lambda>e n. Normal (n < 2))\<rparr>)) = Fulfilled out)
   \<and> (\<exists>b. neatCatchAll [\<lambda>_. Throw (Str ''boom'')] None = Fulfilled b)
   \<and> (\<exists>out. settle (neatCatch (\<lambda>_. Throw (Str ''boom'')) None) = Got out)"
    using h1 h2 h3 h4
      guarded_paths_never_throw
        [of "\<lambda>_. Throw (Str ''boom'')" None "\<lambda>_::unit. Throw (Str ''boom'')" "()"
            "[\<lambda>_. Throw (Str ''boom'')]" "\<lambda>k. Throw (Str ''boom'')"
            "\<lparr> maxRetries = None, delay = None, backoff = None, errorTransformer = None,
               shouldRetry = None \<rparr>"
            "\<lambda>e n. Normal (n < 2)"]
    by blast
  with h1 h2 h3 show ?thesis by blast
qed

text \<open>
  Claim C1. No core operation may throw or hand back a rejected awaitable. The code keeps
  to that on every path shown above, and breaks it at one place: in \<^verbatim>\<open>neatCatchRetry\<close>
  the operation runs inside \<^verbatim>\<open>neatCatch\<close> and the \<^verbatim>\<open>errorTransformer\<close> inside
  \<^verbatim>\<open>transformError\<close>, but \<^verbatim>\<open>shouldRetry(error, attempt)\<close> is called with no guard. With
  an operation that throws \<^verbatim>\<open>"boom"\<close> and a predicate that throws, the awaitable the
  driver returned is rejected with the predicate's exception; the same operation with a
  throwing \<^verbatim>\<open>errorTransformer\<close> instead ends in a failure outcome.
\<close>

theorem shouldRetry_throw_rejects:
  "fst (neatCatchRetry (\<lambda>k. Throw (Str ''boom''))
         \<lparr> maxRetries = None, delay = None, backoff = None, errorTransformer = None,
           shouldRetry = Some (\<lambda>e n. Throw (Str ''predicate failed'')) \<rparr>)
     = Rejected (Str ''predicate failed'')
   \<and> fst (neatCatchRetry (\<lambda>k. Throw (Str ''boom''))
         \<lparr> maxRetries = Some 0, delay = None, backoff = None,
           errorTransformer = Some (\<lambda>e n. Throw (Str ''transformer failed'')),
           shouldRetry = None \<rparr>)
     = Fulfilled (Null, AggregateError [Str ''boom'', Str ''transformer failed''] aggregate_message)"
  by (simp add: neatCatchRetry_def retry_loop_step run_operation_def report_def
                transformed_Some_Throw)

section \<open>The two slots of an outcome\<close>

text \<open>
  Claim C2, as amended. A success is reported as \<open>(value, null)\<close> and a failure as
  \<open>(null, error)\<close>, where \<open>error\<close> is what \<^verbatim>\<open>transformError\<close> returns for the failure value.
  A failure outcome equals a success outcome exactly when the reported error is
  \<^verbatim>\<open>null\<close> and the success value is \<^verbatim>\<open>null\<close>. A failure with \<^verbatim>\<open>undefined\<close> and no
  transformer gives \<open>(null, undefined)\<close>, which no success outcome equals.
\<close>

theorem neatCatch_outcome_slots:
  "(run_operation fn = Succeeded v \<longrightarrow> settle (neatCatch fn t) = Got (v, Null))
   \<and> (run_operation fn = Failed e \<longrightarrow>
        (\<exists>e'. transformError e t = Normal e' \<and> settle (neatCatch fn t) = Got (Null, e')))
   \<and> (run_operation fn = Failed e \<and> run_operation g = Succeeded v \<longrightarrow>
        (settle (neatCatch fn t) = settle (neatCatch g t')
           \<longleftrightarrow> transformError e t = Normal Null \<and> v = Null))
   \<and> (run_operation fn = Failed Undefined \<and> run_operation g = Succeeded v \<longrightarrow>
        settle (neatCatch fn None) = Got (Null, Undefined)
        \<and> settle (neatCatch fn None) \<noteq> settle (neatCatch g t'))"
  by (auto simp: settle_neatCatch transformError_Normal transformed_None)

theorem neatCatch_outcome_slots_witness:
  "run_operation (\<lambda>_. Normal (Thenable Native (Rejected Undefined))) = Failed Undefined
   \<and> run_operation (\<lambda>_. Normal Undefined) = Succeeded Undefined
   \<and> settle (neatCatch (\<lambda>_. Normal Undefined) None) = Got (Undefined, Null)
   \<and> settle (neatCatch (\<lambda>_. Normal (Thenable Native (Rejected Undefined))) None) = Got (Null, Undefined)
   \<and> settle (neatCatch (\<lambda>_. Normal (Thenable Native (Rejected Undefined))) None)
        \<noteq> settle (neatCatch (\<lambda>_. Normal Undefined) None)"
proof -
  have f: "run_operation (\<lambda>_. Normal (Thenable Native (Rejected Undefined))) = Failed Undefined"
    by (simp add: run_operation_def is_awaitable_def)
  have s: "run_operation (\<lambda>_. Normal Undefined) = Succeeded Undefined"
    by (simp add: run_operation_def is_awaitable_def)
  show ?thesis
    using f s
      neatCatch_outcome_slots [of "\<lambda>_. Normal Undefined" Undefined None Undefined
                                  "\<lambda>_. Normal Undefined" None]
      neatCatch_outcome_slots [of "\<lambda>_. Normal (Thenable Native (Rejected Undefined))" Undefined
                                  None Undefined "\<lambda>_. Normal Undefined" None]
    by simp
qed

text \<open>
  The claim as stated fails for a thrown \<^verbatim>\<open>null\<close>: the outcome is \<open>(null, null)\<close>, the very
  outcome of an operation that returns \<^verbatim>\<open>null\<close>.
\<close>

theorem thrown_null_looks_like_success:
  "run_operation (\<lambda>_. Throw Null) = Failed Null
   \<and> run_operation (\<lambda>_. Normal Null) = Succeeded Null
   \<and> neatCatch (\<lambda>_. Throw Null) None = Normal (Sync (Null, Null))
   \<and> neatCatch (\<lambda>_. Throw Null) None = neatCatch (\<lambda>_. Normal Null) None"
  by (simp add: run_operation_def is_awaitable_def neatCatch_unfold transformed_None)

section \<open>Index alignment of the batch outcome\<close>

text \<open>
  Claim C4, as amended. For a batch whose operations all settle, and every index \<open>i\<close> of
  the input: when operation \<open>i\<close> succeeded, \<open>results[i]\<close> holds its value and \<open>errors[i]\<close>
  is absent; when it failed and the transformed failure value is truthy, \<open>errors[i]\<close> holds
  that value and \<open>results[i]\<close> is absent; when it failed and the transformed failure value
  is falsy, \<open>results[i]\<close> holds \<^verbatim>\<open>null\<close> and \<open>errors[i]\<close> is absent. At most one of the two
  is populated at any index, and nothing is populated beyond the input. The input order
  alone fixes the index: the order in which the operations settle is not an input of
  \<^verbatim>\<open>Promise.allSettled\<close>'s result.
\<close>

theorem neatCatchAll_index_alignment:
  assumes "\<forall>op \<in> set ops. run_operation op \<noteq> Unsettled"
  shows "\<exists>b. neatCatchAll ops t = Fulfilled b
     \<and> (\<forall>i < length ops.
           (\<forall>v. run_operation (ops ! i) = Succeeded v \<longrightarrow>
                batch_slot (results b) i = Some v \<and> batch_slot (errors b) i = None)
         \<and> (\<forall>e e'. run_operation (ops ! i) = Failed e \<and> transformError e t = Normal e' \<and> truthy e' \<longrightarrow>
                batch_slot (errors b) i = Some e' \<and> batch_slot (results b) i = None)
         \<and> (\<forall>e e'. run_operation (ops ! i) = Failed e \<and> transformError e t = Normal e' \<and> \<not> truthy e' \<longrightarrow>
                batch_slot (results b) i = Some Null \<and> batch_slot (errors b) i = None))
     \<and> (\<forall>i. batch_slot (results b) i = None \<or> batch_slot (errors b) i = None)
     \<and> (\<forall>i \<ge> length ops. batch_slot (results b) i = None \<and> batch_slot (errors b) i = None)"
proof -
  from neatCatchAll_slots [OF assms, of t]
  obtain b where b: "neatCatchAll ops t = Fulfilled b"
    and rs: "\<And>i. batch_slot (results b) i =
             (if i < length ops \<and> \<not> truthy (snd (outcome_of (run_operation (ops ! i)) t))
              then Some (fst (outcome_of (run_operation (ops ! i)) t)) else None)"
    and es: "\<And>i. batch_slot (errors b) i =
             (if i < length ops \<and> truthy (snd (outcome_of (run_operation (ops ! i)) t))
              then Some (snd (outcome_of (run_operation (ops ! i)) t)) else None)"
    by blast
  have "\<forall>i < length ops.
           (\<forall>v. run_operation (ops ! i) = Succeeded v \<longrightarrow>
                batch_slot (results b) i = Some v \<and> batch_slot (errors b) i = None)
         \<and> (\<forall>e e'. run_operation (ops ! i) = Failed e \<and> transformError e t = Normal e' \<and> truthy e' \<longrightarrow>
                batch_slot (errors b) i = Some e' \<and> batch_slot (results b) i = None)
         \<and> (\<forall>e e'. run_operation (ops ! i) = Failed e \<and> transformError e t = Normal e' \<and> \<not> truthy e' \<longrightarrow>
                batch_slot (results b) i = Some Null \<and> batch_slot (errors b) i = None)"
    by (simp add: rs es transformError_Normal)
  moreover have "\<forall>i. batch_slot (results b) i = None \<or> batch_slot (errors b) i = None"
    by (simp add: rs es)
  moreover have "\<forall>i \<ge> length ops. batch_slot (results b) i = None \<and> batch_slot (errors b) i = None"
    by (simp add: rs es)
  ultimately show ?thesis using b by blast
qed

theorem neatCatchAll_index_alignment_witness:
  "run_operation (\<lambda>_. Normal (Thenable Native (Fulfilled (Str ''result1'')))) = Succeeded (Str ''result1'')
   \<and> run_operation (\<lambda>_. Normal (Thenable Native (Rejected (Str ''error2'')))) = Failed (Str ''error2'')
   \<and> run_operation (\<lambda>_. Normal (Thenable Native (Rejected (Str ''error3'')))) = Failed (Str ''error3'')
   \<and> (\<exists>b. neatCatchAll [\<lambda>_. Normal (Thenable Native (Fulfilled (Str ''result1''))),
                         \<lambda>_. Normal (Thenable Native (Rejected (Str ''error2''))),
                         \<lambda>_. Normal (Thenable Native (Rejected (Str ''error3'')))] None = Fulfilled b
          \<and> batch_slot (results b) 0 = Some (Str ''result1'')
          \<and> batch_slot (errors b) 0 = None
          \<and> batch_slot (errors b) 1 = Some (Str ''error2'')
          \<and> batch_slot (results b) 1 = None
          \<and> batch_slot (errors b) 2 = Some (Str ''error3'')
          \<and> batch_slot (results b) 3 = None)"
proof -
  let ?ops = "[\<lambda>_. Normal (Thenable Native (Fulfilled (Str ''result1''))),
               \<lambda>_. Normal (Thenable Native (Rejected (Str ''error2''))),
               (\<lambda>_. Normal (Thenable Native (Rejected (Str ''error3'')))) :: operation]"
  have h: "\<forall>op \<in> set ?ops. run_operation op \<noteq> Unsettled"
    by (simp add: run_operation_def is_awaitable_def)
  have r0: "run_operation (?ops ! 0) = Succeeded (Str ''result1'')"
    and r1: "run_operation (?ops ! 1) = Failed (Str ''error2'')"
    and r2: "run_operation (?ops ! 2) = Failed (Str ''error3'')"
    by (simp_all add: run_operation_def is_awaitable_def)
  have t1: "transformError (Str ''error2'') None = Normal (Str ''error2'')"
    and t2: "transformError (Str ''error3'') None = Normal (Str ''error3'')"
    by (simp_all add: transformError_def try_catch_def)
  from neatCatchAll_index_alignment [OF h, of None]
  obtain b where b: "neatCatchAll ?ops None = Fulfilled b"
    and al: "\<forall>i < length ?ops.
           (\<forall>v. run_operation (?ops ! i) = Succeeded v \<longrightarrow>
                batch_slot (results b) i = Some v \<and> batch_slot (errors b) i = None)
         \<and> (\<forall>e e'. run_operation (?ops ! i) = Failed e \<and> transformError e None = Normal e' \<and> truthy e' \<longrightarrow>
                batch_slot (errors b) i = Some e' \<and> batch_slot (results b) i = None)
         \<and> (\<forall>e e'. run_operation (?ops ! i) = Failed e \<and> transformError e None = Normal e' \<and> \<not> truthy e' \<longrightarrow>
                batch_slot (results b) i = Some Null \<and> batch_slot (errors b) i = None)"
    and out: "\<forall>i \<ge> length ?ops. batch_slot (results b) i = None \<and> batch_slot (errors b) i = None"
    by blast
  have a0: "batch_slot (results b) 0 = Some (Str ''result1'') \<and> batch_slot (errors b) 0 = None"
    using al r0 by (metis length_Cons zero_less_Suc)
  have a1: "batch_slot (errors b) 1 = Some (Str ''error2'') \<and> batch_slot (results b) 1 = None"
  proof -
    have "(1::nat) < length ?ops" by simp
    moreover have "truthy (Str ''error2'')" by simp
    ultimately show ?thesis using al r1 t1 by blast
  qed
  have a2: "batch_slot (errors b) 2 = Some (Str ''error3'')"
  proof -
    have "(2::nat) < length ?ops" by simp
    moreover have "truthy (Str ''error3'')" by simp
    ultimately show ?thesis using al r2 t2 by blast
  qed
  have a3: "batch_slot (results b) 3 = None"
    using out by simp
  have "\<exists>b. neatCatchAll ?ops None = Fulfilled b
          \<and> batch_slot (results b) 0 = Some (Str ''result1'')
          \<and> batch_slot (errors b) 0 = None
          \<and> batch_slot (errors b) 1 = Some (Str ''error2'')
          \<and> batch_slot (results b) 1 = None
          \<and> batch_slot (errors b) 2 = Some (Str ''error3'')
          \<and> batch_slot (results b) 3 = None"
    using b a0 a1 a2 a3 by blast
  with r0 r1 r2 show ?thesis by simp
qed

text \<open>
  The claim as stated fails for a falsy failure value: \<^verbatim>\<open>if (error)\<close> sends the
  outcome of an operation that rejected with \<^verbatim>\<open>0\<close> to \<open>results\<close>.
\<close>

theorem falsy_rejection_lands_in_results:
  "run_operation (\<lambda>_. Normal (Thenable Native (Rejected (Num 0)))) = Failed (Num 0)
   \<and> neatCatchAll [\<lambda>_. Normal (Thenable Native (Rejected (Num 0)))] None
       = Fulfilled \<lparr> results = Some [Some Null], errors = None \<rparr>
   \<and> batch_slot (Some [Some Null]) 0 = Some Null"
  by (simp add: neatCatchAll_unfold run_operation_def is_awaitable_def transformed_None
                arr_set_def batch_slot_def slot_def)

section \<open>Collapse of an all-success or all-failure batch\<close>

text \<open>
  Claim C9, as amended. For a non-empty batch whose operations all settle: if every
  operation succeeds, \<open>errors\<close> is \<^verbatim>\<open>null\<close> and \<open>results\<close> is an array; if every operation
  fails with a truthy transformed failure value, \<open>results\<close> is \<^verbatim>\<open>null\<close> and \<open>errors\<close> is an
  array; if some operation succeeds and some operation fails with a truthy transformed
  failure value, both are arrays.
\<close>

theorem neatCatchAll_collapse:
  assumes "ops \<noteq> []" and "\<forall>op \<in> set ops. run_operation op \<noteq> Unsettled"
  shows "\<exists>b. neatCatchAll ops t = Fulfilled b
     \<and> ((\<forall>op \<in> set ops. \<exists>v. run_operation op = Succeeded v) \<longrightarrow>
          errors b = None \<and> results b \<noteq> None)
     \<and> ((\<forall>op \<in> set ops. \<exists>e e'. run_operation op = Failed e \<and> transformError e t = Normal e'
                                  \<and> truthy e') \<longrightarrow>
          results b = None \<and> errors b \<noteq> None)
     \<and> ((\<exists>op \<in> set ops. \<exists>v. run_operation op = Succeeded v)
          \<and> (\<exists>op \<in> set ops. \<exists>e e'. run_operation op = Failed e \<and> transformError e t = Normal e'
                                    \<and> truthy e') \<longrightarrow>
          results b \<noteq> None \<and> errors b \<noteq> None)"
proof -
  from neatCatchAll_slots [OF assms(2), of t]
  obtain b where b: "neatCatchAll ops t = Fulfilled b"
    and rn: "results b = None \<longleftrightarrow> (\<forall>op \<in> set ops. truthy (snd (outcome_of (run_operation op) t)))"
    and en: "errors b = None \<longleftrightarrow> (\<forall>op \<in> set ops. \<not> truthy (snd (outcome_of (run_operation op) t)))"
    by (elim exE conjE) (rule that, assumption+)
  obtain op0 where op0: "op0 \<in> set ops" using assms(1) by (cases ops) auto
  have c1: "(\<forall>op \<in> set ops. \<exists>v. run_operation op = Succeeded v) \<longrightarrow>
          errors b = None \<and> results b \<noteq> None"
  proof
    assume a: "\<forall>op \<in> set ops. \<exists>v. run_operation op = Succeeded v"
    then have "\<forall>op \<in> set ops. \<not> truthy (snd (outcome_of (run_operation op) t))" by auto
    then show "errors b = None \<and> results b \<noteq> None" using rn en op0 by blast
  qed
  have c2: "(\<forall>op \<in> set ops. \<exists>e e'. run_operation op = Failed e \<and> transformError e t = Normal e'
                                  \<and> truthy e') \<longrightarrow>
          results b = None \<and> errors b \<noteq> None"
  proof
    assume a: "\<forall>op \<in> set ops. \<exists>e e'. run_operation op = Failed e \<and> transformError e t = Normal e'
                                  \<and> truthy e'"
    then have "\<forall>op \<in> set ops. truthy (snd (outcome_of (run_operation op) t))"
      by (auto simp: transformError_Normal)
    then show "results b = None \<and> errors b \<noteq> None" using rn en op0 by blast
  qed
  have c3: "(\<exists>op \<in> set ops. \<exists>v. run_operation op = Succeeded v)
          \<and> (\<exists>op \<in> set ops. \<exists>e e'. run_operation op = Failed e \<and> transformError e t = Normal e'
                                    \<and> truthy e') \<longrightarrow>
          results b \<noteq> None \<and> errors b \<noteq> None"
  proof
    assume a: "(\<exists>op \<in> set ops. \<exists>v. run_operation op = Succeeded v)
          \<and> (\<exists>op \<in> set ops. \<exists>e e'. run_operation op = Failed e \<and> transformError e t = Normal e'
                                    \<and> truthy e')"
    then obtain s where s: "s \<in> set ops" "\<not> truthy (snd (outcome_of (run_operation s) t))"
      by auto
    from a obtain f where f: "f \<in> set ops" "truthy (snd (outcome_of (run_operation f) t))"
      by (auto simp: transformError_Normal)
    from s f show "results b \<noteq> None \<and> errors b \<noteq> None" using rn en by blast
  qed
  from b c1 c2 c3 show ?thesis by blast
qed

theorem neatCatchAll_collapse_witness:
  "[\<lambda>_. Normal (Thenable Native (Fulfilled (Str ''a''))), (\<lambda>_. Normal (Num 7)) :: operation] \<noteq> []
   \<and> run_operation (\<lambda>_. Normal (Thenable Native (Fulfilled (Str ''a'')))) = Succeeded (Str ''a'')
   \<and> run_operation (\<lambda>_. Normal (Num 7)) = Succeeded (Num 7)
   \<and> run_operation (\<lambda>_. Normal (Thenable Native (Rejected (Str ''b'')))) = Failed (Str ''b'')
   \<and> run_operation (\<lambda>_. Throw (ErrorObj ''c'')) = Failed (ErrorObj ''c'')
   \<and> (\<exists>b. neatCatchAll [\<lambda>_. Normal (Thenable Native (Fulfilled (Str ''a''))), \<lambda>_. Normal (Num 7)] None
            = Fulfilled b \<and> errors b = None \<and> results b \<noteq> None)
   \<and> (\<exists>b. neatCatchAll [\<lambda>_. Normal (Thenable Native (Rejected (Str ''b''))), \<lambda>_. Throw (ErrorObj ''c'')] None
            = Fulfilled b \<and> results b = None \<and> errors b \<noteq> None)
   \<and> (\<exists>b. neatCatchAll [\<lambda>_. Normal (Thenable Native (Fulfilled (Str ''a''))), \<lambda>_. Throw (ErrorObj ''c'')] None
            = Fulfilled b \<and> results b \<noteq> None \<and> errors b \<noteq> None)"
proof -
  let ?ok = "(\<lambda>_. Normal (Thenable Native (Fulfilled (Str ''a'')))) :: operation"
  let ?seven = "(\<lambda>_. Normal (Num 7)) :: operation"
  let ?rej = "(\<lambda>_. Normal (Thenable Native (Rejected (Str ''b'')))) :: operation"
  let ?thr = "(\<lambda>_. Throw (ErrorObj ''c'')) :: operation"
  have ok: "run_operation ?ok = Succeeded (Str ''a'')"
    and seven: "run_operation ?seven = Succeeded (Num 7)"
    and rej: "run_operation ?rej = Failed (Str ''b'')"
    and thr: "run_operation ?thr = Failed (ErrorObj ''c'')"
    by (simp_all add: run_operation_def is_awaitable_def)
  have tb: "transformError (Str ''b'') None = Normal (Str ''b'')"
    and tc: "transformError (ErrorObj ''c'') None = Normal (ErrorObj ''c'')"
    by (simp_all add: transformError_def try_catch_def)
  have s1: "\<forall>op \<in> set [?ok, ?seven]. \<exists>v. run_operation op = Succeeded v"
    using ok seven by simp
  have f2: "\<forall>op \<in> set [?rej, ?thr].
              \<exists>e e'. run_operation op = Failed e \<and> transformError e None = Normal e' \<and> truthy e'"
    using rej thr tb tc by simp
  have m3: "(\<exists>op \<in> set [?ok, ?thr]. \<exists>v. run_operation op = Succeeded v)
          \<and> (\<exists>op \<in> set [?ok, ?thr]. \<exists>e e'. run_operation op = Failed e
                 \<and> transformError e None = Normal e' \<and> truthy e')"
    using ok thr tc by simp
  have u1: "\<forall>op \<in> set [?ok, ?seven]. run_operation op \<noteq> Unsettled" using ok seven by simp
  have u2: "\<forall>op \<in> set [?rej, ?thr]. run_operation op \<noteq> Unsettled" using rej thr by simp
  have u3: "\<forall>op \<in> set [?ok, ?thr]. run_operation op \<noteq> Unsettled" using ok thr by simp
  have w1: "\<exists>b. neatCatchAll [?ok, ?seven] None = Fulfilled b \<and> errors b = None \<and> results b \<noteq> None"
    using neatCatchAll_collapse [OF _ u1, of None] s1 by blast
  have w2: "\<exists>b. neatCatchAll [?rej, ?thr] None = Fulfilled b \<and> results b = None \<and> errors b \<noteq> None"
    using neatCatchAll_collapse [OF _ u2, of None] f2 by blast
  have w3: "\<exists>b. neatCatchAll [?ok, ?thr] None = Fulfilled b \<and> results b \<noteq> None \<and> errors b \<noteq> None"
    using neatCatchAll_collapse [OF _ u3, of None] m3 by blast
  from ok seven rej thr w1 w2 w3 show ?thesis by simp
qed

text \<open>
  The claim as stated fails when the failure values are falsy: both operations below
  fail, and the batch comes back with a \<open>results\<close> array and \<^verbatim>\<open>errors: null\<close>.
\<close>

theorem all_failed_batch_with_results:
  "run_operation (\<lambda>_. Normal (Thenable Native (Rejected Undefined))) = Failed Undefined
   \<and> run_operation (\<lambda>_. Throw (Str [])) = Failed (Str [])
   \<and> neatCatchAll [\<lambda>_. Normal (Thenable Native (Rejected Undefined)), \<lambda>_. Throw (Str [])] None
       = Fulfilled \<lparr> results = Some [Some Null, Some Null], errors = None \<rparr>"
  by (simp add: neatCatchAll_unfold run_operation_def is_awaitable_def transformed_None
                arr_set_def)

section \<open>The attempt budget of the retry driver\<close>

text \<open>
  Claim C5, as amended. For \<^verbatim>\<open>maxRetries\<close> a non-negative integer \<open>m\<close>, the driver invokes
  the operation at least once and at most \<open>m + 1\<close> times, whatever the operation and the
  other options do (the loop is a total function, so it never runs on without bound).
  Against an operation whose every attempt fails with a truthy failure value, under the
  default or an always-true \<^verbatim>\<open>shouldRetry\<close>, it invokes the operation exactly \<open>m + 1\<close> times
  and returns the failure outcome built from the last failure. With \<open>m = 0\<close> it makes
  exactly one invocation and never waits.
\<close>

theorem retry_attempt_budget:
  assumes "maxRetries opts = Some m" and "0 \<le> m"
  shows "calls (snd (neatCatchRetry fn opts)) \<le> nat (m + 1)
     \<and> 1 \<le> calls (snd (neatCatchRetry fn opts))
     \<and> ((\<forall>k. \<exists>e. run_operation (\<lambda>_. fn k) = Failed e \<and> truthy e)
          \<and> (\<forall>p. shouldRetry opts = Some p \<longrightarrow> (\<forall>e n. p e n = Normal True)) \<longrightarrow>
          calls (snd (neatCatchRetry fn opts)) = nat (m + 1)
          \<and> (\<exists>e. run_operation (\<lambda>_. fn (nat (m + 1))) = Failed e
                \<and> fst (neatCatchRetry fn opts)
                    = Fulfilled (Null, report (errorTransformer opts) e (m + 1))))
     \<and> (m = 0 \<longrightarrow> calls (snd (neatCatchRetry fn opts)) = 1
                  \<and> waits (snd (neatCatchRetry fn opts)) = [])"
proof -
  let ?dl = "case delay opts of Some d \<Rightarrow> d | None \<Rightarrow> SafeInt 1000"
  let ?bk = "case backoff opts of Some b \<Rightarrow> b | None \<Rightarrow> Exponential"
  let ?p = "case shouldRetry opts of Some p \<Rightarrow> p | None \<Rightarrow> (\<lambda>e n. Normal True)"
  let ?tr0 = "\<lparr> calls = 0, waits = [] \<rparr>"
  let ?R = "retry_loop fn m ?dl ?bk (errorTransformer opts) ?p 1 ?tr0"
  have run: "neatCatchRetry fn opts = ?R"
    by (simp add: neatCatchRetry_def assms(1))
  have le: "(1::int) \<le> m + 1" using assms(2) by simp
  have bounds: "calls (snd ?R) \<le> nat (m + 1) \<and> 1 \<le> calls (snd ?R)"
    using retry_loop_calls_bounds [of fn m ?dl ?bk "errorTransformer opts" ?p 1 ?tr0] le
    by (simp add: add.commute)
  have allfail: "calls (snd ?R) = nat (m + 1)
          \<and> (\<exists>e. run_operation (\<lambda>_. fn (nat (m + 1))) = Failed e
                \<and> fst ?R = Fulfilled (Null, report (errorTransformer opts) e (m + 1)))"
    if f: "\<forall>k. \<exists>e. run_operation (\<lambda>_. fn k) = Failed e \<and> truthy e"
      and a: "\<forall>p. shouldRetry opts = Some p \<longrightarrow> (\<forall>e n. p e n = Normal True)"
  proof -
    have always: "\<And>e n. ?p e n = Normal True"
      using a by (cases "shouldRetry opts") simp_all
    have fail: "\<And>k. \<exists>e. run_operation (\<lambda>_. fn k) = Failed e \<and> truthy e"
      using f by blast
    from retry_loop_all_fail [of fn ?p 1 m ?tr0 ?dl ?bk "errorTransformer opts", OF fail always le]
    show ?thesis using assms(2) by (auto simp: add.commute)
  qed
  have zero: "calls (snd ?R) = 1 \<and> waits (snd ?R) = []" if "m = 0"
  proof -
    have c: "calls (snd ?R) = 1" using bounds that by simp
    have "waits (snd ?R) = waits ?tr0 @ map (nextDelay ?bk ?dl)
             [1 .. 1 + int (calls (snd ?R)) - int (calls ?tr0) - 2]"
      by (rule retry_loop_waits [OF le])
    then show ?thesis using c by simp
  qed
  show ?thesis
    unfolding run using bounds allfail zero by blast
qed

theorem retry_attempt_budget_witness:
  "maxRetries \<lparr> maxRetries = Some 2, delay = Some (SafeInt 100), backoff = None, errorTransformer = None,
                shouldRetry = None \<rparr> = Some 2
   \<and> (0::int) \<le> 2
   \<and> (\<forall>k. \<exists>e. run_operation (\<lambda>_. (\<lambda>k::nat. Normal (Thenable Native (Rejected (ErrorObj ''persistent error'')))) k)
                  = Failed e \<and> truthy e)
   \<and> calls (snd (neatCatchRetry (\<lambda>k. Normal (Thenable Native (Rejected (ErrorObj ''persistent error''))))
        \<lparr> maxRetries = Some 2, delay = Some (SafeInt 100), backoff = None, errorTransformer = None,
          shouldRetry = None \<rparr>)) = 3
   \<and> fst (neatCatchRetry (\<lambda>k. Normal (Thenable Native (Rejected (ErrorObj ''persistent error''))))
        \<lparr> maxRetries = Some 2, delay = Some (SafeInt 100), backoff = None, errorTransformer = None,
          shouldRetry = None \<rparr>) = Fulfilled (Null, ErrorObj ''persistent error'')"
proof -
  let ?fn = "\<lambda>k::nat. Normal (Thenable Native (Rejected (ErrorObj ''persistent error'')))"
  let ?opts = "\<lparr> maxRetries = Some 2, delay = Some (SafeInt 100), backoff = None, errorTransformer = None,
                shouldRetry = None \<rparr>"
  have r: "\<And>k. run_operation (\<lambda>_. ?fn k) = Failed (ErrorObj ''persistent error'')"
    by (simp add: run_operation_def is_awaitable_def)
  have f: "\<forall>k. \<exists>e. run_operation (\<lambda>_. ?fn k) = Failed e \<and> truthy e"
    by (simp add: r)
  have p: "\<forall>p. shouldRetry ?opts = Some p \<longrightarrow> (\<forall>e n. p e n = Normal True)" by simp
  have m: "maxRetries ?opts = Some 2" by simp
  from retry_attempt_budget [OF m, of ?fn] f p
  have "calls (snd (neatCatchRetry ?fn ?opts)) = nat (2 + 1)
        \<and> (\<exists>e. run_operation (\<lambda>_. ?fn (nat (2 + 1))) = Failed e
              \<and> fst (neatCatchRetry ?fn ?opts)
                    = Fulfilled (Null, report (errorTransformer ?opts) e (2 + 1)))"
    by simp
  then show ?thesis using f by (simp add: r report_def)
qed

text \<open>
  The claim as stated fails for a falsy failure value: \<^verbatim>\<open>if (!error) return [data, null]\<close>
  takes the first rejection with \<^verbatim>\<open>undefined\<close> for a success, so the operation is invoked
  once instead of three times and the outcome is \<open>(null, null)\<close>.
\<close>

theorem falsy_failure_ends_retries:
  "(\<forall>k. run_operation (\<lambda>_. (\<lambda>k::nat. Normal (Thenable Native (Rejected Undefined))) k)
           = Failed Undefined)
   \<and> neatCatchRetry (\<lambda>k. Normal (Thenable Native (Rejected Undefined)))
        \<lparr> maxRetries = Some 2, delay = Some (SafeInt 100), backoff = None, errorTransformer = None,
          shouldRetry = None \<rparr>
       = (Fulfilled (Null, Null), \<lparr> calls = 1, waits = [] \<rparr>)"
  by (simp add: neatCatchRetry_def retry_loop_step run_operation_def is_awaitable_def)

section \<open>The retry decision\<close>

text \<open>
  Claim C6, as amended. Let the first \<open>n\<close> attempts fail with truthy failure values, each
  of the first \<open>n - 1\<close> failures being accepted by \<^verbatim>\<open>shouldRetry\<close>, and let \<open>e\<close> be the
  failure of attempt \<open>n\<close>. Then the driver makes a further invocation iff \<open>n\<close> is not the
  last attempt and \<^verbatim>\<open>shouldRetry(e, n)\<close> returns true; the predicate is given the raw
  failure value and the 1-based attempt number. When \<open>n\<close> is the last attempt or the
  predicate returns false, the driver stops after exactly \<open>n\<close> invocations and reports
  the raw \<open>e\<close> when no \<^verbatim>\<open>errorTransformer\<close> was supplied, and otherwise what
  \<^verbatim>\<open>errorTransformer(e, n)\<close> returns (the aggregate of claim C7 when it throws). An
  absent \<^verbatim>\<open>shouldRetry\<close> behaves as the always-true predicate.
\<close>

theorem retry_decision:
  assumes fails: "\<forall>k. 1 \<le> k \<and> k \<le> n \<longrightarrow>
                   (\<exists>x. run_operation (\<lambda>_. fn k) = Failed x \<and> truthy x
                        \<and> (k < n \<longrightarrow> p x (int k) = Normal True))"
    and last: "run_operation (\<lambda>_. fn n) = Failed e"
    and n: "1 \<le> n" "int n \<le> m + 1"
    and opts: "maxRetries opts = Some m" "shouldRetry opts = Some p"
  shows "(n < calls (snd (neatCatchRetry fn opts)) \<longleftrightarrow> int n \<noteq> m + 1 \<and> p e (int n) = Normal True)
     \<and> (int n = m + 1 \<or> p e (int n) = Normal False \<longrightarrow>
          calls (snd (neatCatchRetry fn opts)) = n
          \<and> fst (neatCatchRetry fn opts)
              = Fulfilled (Null, case errorTransformer opts of
                                   None \<Rightarrow> e
                                 | Some et \<Rightarrow> (case et e (int n) of
                                                Normal v \<Rightarrow> v
                                              | Throw te \<Rightarrow> AggregateError [e, te] aggregate_message)))
     \<and> neatCatchRetry fn (opts\<lparr>shouldRetry := None\<rparr>)
         = neatCatchRetry fn (opts\<lparr>shouldRetry := Some (\<lambda>e n. Normal True)\<rparr>)"
proof -
  let ?dl = "case delay opts of Some d \<Rightarrow> d | None \<Rightarrow> SafeInt 1000"
  let ?bk = "case backoff opts of Some b \<Rightarrow> b | None \<Rightarrow> Exponential"
  let ?errT = "errorTransformer opts"
  let ?tr0 = "\<lparr> calls = 0, waits = [] \<rparr>"
  let ?trn = "?tr0\<lparr>calls := calls ?tr0 + (n - 1),
                   waits := waits ?tr0 @ map (nextDelay ?bk ?dl) [1 .. 1 + int (n - 1) - 1]\<rparr>"
  have run: "neatCatchRetry fn opts = retry_loop fn m ?dl ?bk ?errT p 1 ?tr0"
    by (simp add: neatCatchRetry_def opts)
  have e: "truthy e"
    using fails last n(1) by (metis le_refl op_result.inject(2))
  have pre: "retry_loop fn m ?dl ?bk ?errT p 1 ?tr0
               = retry_loop fn m ?dl ?bk ?errT p (1 + int (n - 1)) ?trn"
  proof (rule retry_loop_prefix)
    fix k assume k: "k < n - 1"
    then have "1 \<le> k + 1 \<and> k + 1 \<le> n" and "k + 1 < n" by simp_all
    with fails obtain x where "run_operation (\<lambda>_. fn (k + 1)) = Failed x" "truthy x"
        "p x (int (k + 1)) = Normal True"
      by blast
    then show "\<exists>x. run_operation (\<lambda>_. fn (calls ?tr0 + k + 1)) = Failed x \<and> truthy x
                   \<and> p x (1 + int k) = Normal True"
      by (auto simp: add.commute)
  next
    show "1 + int (n - 1) \<le> m + 1" using n by simp
  qed
  have an: "1 + int (n - 1) = int n" using n(1) by simp
  have cn: "Suc (calls ?trn) = n" using n(1) by simp
  have lastn: "run_operation (\<lambda>_. fn (Suc (calls ?trn))) = Failed e"
    unfolding cn by (rule last)
  have rep: "report ?errT e (int n) =
               (case ?errT of None \<Rightarrow> e
                | Some et \<Rightarrow> (case et e (int n) of Normal v \<Rightarrow> v
                              | Throw te \<Rightarrow> AggregateError [e, te] aggregate_message))"
    by (simp add: report_def transformed_def transformError_def try_catch_def
             split: option.splits completion.splits)
  have stop: "retry_loop fn m ?dl ?bk ?errT p (int n) ?trn
                = (Fulfilled (Null, report ?errT e (int n)), ?trn\<lparr>calls := Suc (calls ?trn)\<rparr>)"
    if "int n = m + 1 \<or> p e (int n) = Normal False"
    using lastn e n(2) that by (rule retry_loop_stop_step)
  have c2: "int n = m + 1 \<or> p e (int n) = Normal False \<longrightarrow>
          calls (snd (neatCatchRetry fn opts)) = n
          \<and> fst (neatCatchRetry fn opts)
              = Fulfilled (Null, case ?errT of None \<Rightarrow> e
                                 | Some et \<Rightarrow> (case et e (int n) of Normal v \<Rightarrow> v
                                               | Throw te \<Rightarrow> AggregateError [e, te] aggregate_message))"
    using stop cn by (simp add: run pre an rep)
  have go: "n < calls (snd (neatCatchRetry fn opts))"
    if a: "int n \<noteq> m + 1" and b: "p e (int n) = Normal True"
  proof -
    let ?tr' = "?trn\<lparr>calls := Suc (calls ?trn), waits := waits ?trn @ [nextDelay ?bk ?dl (int n)]\<rparr>"
    have lt: "int n < m + 1" using a n(2) by simp
    have "retry_loop fn m ?dl ?bk ?errT p (int n) ?trn
            = retry_loop fn m ?dl ?bk ?errT p (int n + 1) ?tr'"
      using lastn e b lt by (rule retry_loop_retry_step [of fn ?trn e p "int n" m])
    moreover have "Suc (calls ?tr') \<le> calls (snd (retry_loop fn m ?dl ?bk ?errT p (int n + 1) ?tr'))"
      using retry_loop_calls_bounds [of fn m ?dl ?bk ?errT p "int n + 1" ?tr'] lt by simp
    ultimately show ?thesis using cn by (simp add: run pre an)
  qed
  have nogo: "calls (snd (neatCatchRetry fn opts)) = n"
    if "\<not> (int n \<noteq> m + 1 \<and> p e (int n) = Normal True)"
  proof (cases "int n = m + 1 \<or> p e (int n) = Normal False")
    case True
    then show ?thesis using c2 by blast
  next
    case False
    with that obtain y where y: "p e (int n) = Throw y" and ne: "int n \<noteq> m + 1"
      by (cases "p e (int n)") auto
    have "retry_loop fn m ?dl ?bk ?errT p (int n) ?trn
            = (Rejected y, ?trn\<lparr>calls := Suc (calls ?trn)\<rparr>)"
      using lastn e y ne n(2) by (subst retry_loop_step) simp
    then show ?thesis using cn by (simp add: run pre an)
  qed
  have c1: "n < calls (snd (neatCatchRetry fn opts)) \<longleftrightarrow> int n \<noteq> m + 1 \<and> p e (int n) = Normal True"
    using go nogo by (cases "int n \<noteq> m + 1 \<and> p e (int n) = Normal True") auto
  have c3: "neatCatchRetry fn (opts\<lparr>shouldRetry := None\<rparr>)
         = neatCatchRetry fn (opts\<lparr>shouldRetry := Some (\<lambda>e n. Normal True)\<rparr>)"
    by (simp add: neatCatchRetry_def)
  from c1 c2 c3 show ?thesis by blast
qed

theorem retry_decision_witness:
  "run_operation (\<lambda>_. Normal (Thenable Native (Rejected (ErrorObj ''retryable''))))
     = Failed (ErrorObj ''retryable'')
   \<and> run_operation (\<lambda>_. Normal (Thenable Native (Rejected (ErrorObj ''non-retryable''))))
     = Failed (ErrorObj ''non-retryable'')
   \<and> int 2 \<le> 3 + 1
   \<and> calls (snd (neatCatchRetry
        (\<lambda>k. if k = 1 then Normal (Thenable Native (Rejected (ErrorObj ''retryable'')))
              else if k = 2 then Normal (Thenable Native (Rejected (ErrorObj ''non-retryable'')))
              else Normal (Thenable Native (Fulfilled (Str ''success''))))
        \<lparr> maxRetries = Some 3, delay = Some (SafeInt 100), backoff = None, errorTransformer = None,
          shouldRetry = Some (\<lambda>e n. Normal (e = ErrorObj ''retryable'')) \<rparr>)) = 2
   \<and> fst (neatCatchRetry
        (\<lambda>k. if k = 1 then Normal (Thenable Native (Rejected (ErrorObj ''retryable'')))
              else if k = 2 then Normal (Thenable Native (Rejected (ErrorObj ''non-retryable'')))
              else Normal (Thenable Native (Fulfilled (Str ''success''))))
        \<lparr> maxRetries = Some 3, delay = Some (SafeInt 100), backoff = None, errorTransformer = None,
          shouldRetry = Some (\<lambda>e n. Normal (e = ErrorObj ''retryable'')) \<rparr>)
       = Fulfilled (Null, ErrorObj ''non-retryable'')"
proof -
  let ?fn = "\<lambda>k::nat. if k = 1 then Normal (Thenable Native (Rejected (ErrorObj ''retryable'')))
                      else if k = 2 then Normal (Thenable Native (Rejected (ErrorObj ''non-retryable'')))
                      else Normal (Thenable Native (Fulfilled (Str ''success'')))"
  let ?p = "\<lambda>(e::jsval) (n::int). (Normal (e = ErrorObj ''retryable'') :: bool comp)"
  let ?opts = "\<lparr> maxRetries = Some 3, delay = Some (SafeInt 100), backoff = None, errorTransformer = None,
                shouldRetry = Some ?p \<rparr>"
  have r1: "run_operation (\<lambda>_. ?fn 1) = Failed (ErrorObj ''retryable'')"
    and r2: "run_operation (\<lambda>_. ?fn 2) = Failed (ErrorObj ''non-retryable'')"
    by (simp_all add: run_operation_def is_awaitable_def)
  have fails: "\<forall>k. 1 \<le> k \<and> k \<le> (2::nat) \<longrightarrow>
        (\<exists>x. run_operation (\<lambda>_. ?fn k) = Failed x \<and> truthy x
             \<and> (k < 2 \<longrightarrow> ?p x (int k) = Normal True))"
  proof (intro allI impI)
    fix k :: nat assume "1 \<le> k \<and> k \<le> 2"
    then consider "k = 1" | "k = 2" by linarith
    then show "\<exists>x. run_operation (\<lambda>_. ?fn k) = Failed x \<and> truthy x
                   \<and> (k < 2 \<longrightarrow> ?p x (int k) = Normal True)"
    proof cases
      case 1
      then show ?thesis using r1 by simp
    next
      case 2
      then show ?thesis using r2 by simp
    qed
  qed
  have n: "(1::nat) \<le> 2" "int 2 \<le> 3 + 1" by simp_all
  have o: "maxRetries ?opts = Some 3" "shouldRetry ?opts = Some ?p" by simp_all
  from retry_decision [OF fails r2 n o]
  have stopped: "calls (snd (neatCatchRetry ?fn ?opts)) = 2
        \<and> fst (neatCatchRetry ?fn ?opts) = Fulfilled (Null, ErrorObj ''non-retryable'')"
    by simp
  with r1 r2 show ?thesis by simp
qed

text \<open>
  The claim as stated fails for a falsy failure value: after a first attempt that
  rejects with the empty string, three retries remain and the predicate returns true,
  yet the driver returns at once, with \<open>(null, null)\<close> and without calling the supplied
  \<^verbatim>\<open>errorTransformer\<close>.
\<close>

theorem falsy_failure_is_not_retried:
  "run_operation (\<lambda>_. Normal (Thenable Native (Rejected (Str [])))) = Failed (Str [])
   \<and> neatCatchRetry (\<lambda>k. Normal (Thenable Native (Rejected (Str []))))
        \<lparr> maxRetries = Some 3, delay = Some (SafeInt 10), backoff = Some Linear,
          errorTransformer = Some (\<lambda>e n. Normal (Str ''transformed'')),
          shouldRetry = Some (\<lambda>e n. Normal True) \<rparr>
       = (Fulfilled (Null, Null), \<lparr> calls = 1, waits = [] \<rparr>)"
  by (simp add: neatCatchRetry_def retry_loop_step run_operation_def is_awaitable_def)

section \<open>The backoff formula\<close>




end
